theory Spec2Isabelle
  imports Complex_Main "HOL-Library.AList"
begin

section \<open>Mutation grouping (group_mutations)\<close>

text \<open>
  The amino-acid alphabet of the module (25 letters, no J).
\<close>

definition AA_letters :: "char list" where
  "AA_letters = ''ABCDEFGHIKLMNOPQRSTUVWXYZ''"

text \<open>
  A row of the table df_count built at the start of group_mutations: one count per
  letter of \<open>AA_letters\<close>, the column "len" (the sum of these counts, so characters outside
  the alphabet are not counted) and the sequence itself.
\<close>

record count_row =
  aa_counts :: "nat list"
  len :: nat
  sequence :: string

definition df_count_row :: "string \<Rightarrow> count_row" where
  "df_count_row s =
     (let cs = map (count_list s) AA_letters
      in \<lparr>aa_counts = cs, len = sum_list cs, sequence = s\<rparr>)"

text \<open>
  The inner character loop of group_mutations: the number of positions
  \<open>i < prot_len\<close> at which the two sequences differ.
\<close>

definition n_diff :: "string \<Rightarrow> string \<Rightarrow> nat \<Rightarrow> nat" where
  "n_diff a b n = length (filter (\<lambda>i. a ! i \<noteq> b ! i) [0..<n])"

text \<open>
  The loop state of group_mutations. Records are identified by their position in the table
  (the index labels are only used as keys and are taken to be unique). \<open>s_groups\<close> is the
  series of group ids, \<open>None\<close> standing for NaN; \<open>group_id\<close> is the counter, which becomes NaN
  when it is read from an unset entry of \<open>s_groups\<close>; \<open>idx_out\<close> is the list of processed
  records. The rates are exact rationals: the rounding of the float division is not modelled.
  The threshold \<open>max_rate\<close> is the decimal number of the call (0.3 is 3/10); a quotient of
  two sequence lengths that differs from such a number differs from it by far more than a
  rounding error, so the floats compare as the exact numbers do.
\<close>

record gm_state =
  s_groups :: "nat option list"
  group_id :: "nat option"
  idx_out :: "nat list"
  n_mutations :: nat

text \<open>\<open>s_groups.max()\<close>: the largest id that is set, NaN when none is.\<close>

definition s_groups_max :: "nat option list \<Rightarrow> nat option" where
  "s_groups_max gs =
     (case List.map_filter (\<lambda>g. g) gs of [] \<Rightarrow> None | x # xs \<Rightarrow> Some (fold max xs x))"

text \<open>
  One iteration of the loop over the candidates that survived the pre-filter (source lines
  84 to 100). The division \<open>diff/prot_len\<close> by a zero length yields NaN in the source, and the
  comparison with NaN is false; HOL's \<open>0 / 0 = 0\<close> would say otherwise, so the case is
  written out.
\<close>

definition compare_sub :: "rat \<Rightarrow> count_row list \<Rightarrow> count_row \<Rightarrow> nat \<Rightarrow> gm_state \<Rightarrow> gm_state" where
  "compare_sub max_rate df_count prot sub_id st =
     (let sub = df_count ! sub_id;
          diff = n_diff (sequence prot) (sequence sub) (len prot)
      in if len prot \<noteq> 0 \<and> of_nat diff / of_nat (len prot) < max_rate
         then (let g = (if sub_id \<in> set (idx_out st) then s_groups st ! sub_id else group_id st)
               in st\<lparr>s_groups := (s_groups st)[sub_id := g],
                     group_id := g,
                     idx_out := idx_out st @ [sub_id],
                     n_mutations := n_mutations st + 1\<rparr>)
         else st)"

text \<open>
  The pre-filter of source lines 74 to 77: \<open>cd\<close> stands for the helper
  \<open>character_distance\<close>, whose value for a reference row and a candidate row is compared
  with \<open>max_rate\<close>. The helper is called at source line 75 and defined nowhere in the source
  file; it is an argument of the model.
\<close>

definition pre_filter :: "(count_row \<Rightarrow> count_row \<Rightarrow> rat) \<Rightarrow> rat \<Rightarrow> count_row list \<Rightarrow> count_row \<Rightarrow> nat list \<Rightarrow> nat list" where
  "pre_filter cd max_rate df_count prot df_sub =
     filter (\<lambda>j. cd prot (df_count ! j) < max_rate) df_sub"

text \<open>The numbering step of source lines 103 to 109, after the reference got its id.\<close>

definition next_group_id :: "nat option \<Rightarrow> nat option list \<Rightarrow> nat option" where
  "next_group_id g gs =
     (if g = Some 0 \<or> (g \<noteq> None \<and> g = s_groups_max gs)
      then map_option Suc g
      else map_option Suc (s_groups_max gs))"

text \<open>
  One iteration of the loop over all records (source lines 58 to 111). The counter
  \<open>filtered\<close> is only printed and is left out.
\<close>

definition process_ref :: "(count_row \<Rightarrow> count_row \<Rightarrow> rat) \<Rightarrow> rat \<Rightarrow> count_row list \<Rightarrow> nat \<Rightarrow> gm_state \<Rightarrow> gm_state" where
  "process_ref cd max_rate df_count id0 st =
     (if id0 \<in> set (idx_out st) then st
      else
        let prot = df_count ! id0;
            df_sub = filter (\<lambda>j. j \<noteq> id0 \<and> len (df_count ! j) = len prot) [0..<length df_count]
        in if df_sub = [] then st\<lparr>idx_out := idx_out st @ [id0]\<rparr>
           else
             let st1 = fold (compare_sub max_rate df_count prot)
                         (pre_filter cd max_rate df_count prot df_sub) (st\<lparr>n_mutations := 0\<rparr>);
                 st2 = (if n_mutations st1 \<noteq> 0
                        then let gs = (s_groups st1)[id0 := group_id st1]
                             in st1\<lparr>s_groups := gs, group_id := next_group_id (group_id st1) gs\<rparr>
                        else st1)
             in st2\<lparr>idx_out := idx_out st2 @ [id0]\<rparr>)"

definition group_mutations :: "(count_row \<Rightarrow> count_row \<Rightarrow> rat) \<Rightarrow> string list \<Rightarrow> rat \<Rightarrow> nat option list" where
  "group_mutations cd df max_rate =
     (let df_count = map df_count_row df
      in s_groups (fold (process_ref cd max_rate df_count) [0..<length df_count]
           \<lparr>s_groups = replicate (length df) None, group_id = Some 0, idx_out = [], n_mutations = 0\<rparr>))"

text \<open>Two records are in one group when both have an id and the ids are equal (NaN equals nothing).\<close>

definition same_group :: "nat option list \<Rightarrow> nat \<Rightarrow> nat \<Rightarrow> bool" where
  "same_group gs i j = (gs ! i \<noteq> None \<and> gs ! i = gs ! j)"

text \<open>The fraction of the first \<open>n\<close> positions at which two sequences differ.\<close>

definition substitution_rate :: "string \<Rightarrow> string \<Rightarrow> nat \<Rightarrow> rat" where
  "substitution_rate a b n = of_nat (n_diff a b n) / of_nat n"


text \<open>
  The condition of the specification for grouping two sequences: equal length, and a
  fraction of differing positions below \<open>max_rate\<close>.
\<close>

definition mutants :: "rat \<Rightarrow> string \<Rightarrow> string \<Rightarrow> bool" where
  "mutants max_rate s t \<longleftrightarrow> length s = length t \<and> substitution_rate s t (length s) < max_rate"

text \<open>
  The tests that candidate \<open>j\<close> passes in the pass of reference \<open>i\<close> (source lines 67, 77
  and 92): another record of the same counted length, kept by the pre-filter, and differing
  from the reference at a rate below \<open>max_rate\<close> in the first \<open>len\<close> positions.
\<close>

definition accepts :: "(count_row \<Rightarrow> count_row \<Rightarrow> rat) \<Rightarrow> rat \<Rightarrow> count_row list \<Rightarrow> nat \<Rightarrow> nat \<Rightarrow> bool" where
  "accepts cd max_rate df_count i j \<longleftrightarrow>
     i < length df_count \<and> j < length df_count \<and> j \<noteq> i
     \<and> len (df_count ! j) = len (df_count ! i)
     \<and> cd (df_count ! i) (df_count ! j) < max_rate
     \<and> len (df_count ! i) \<noteq> 0
     \<and> of_nat (n_diff (sequence (df_count ! i)) (sequence (df_count ! j)) (len (df_count ! i)))
           / of_nat (len (df_count ! i)) < max_rate"

text \<open>
  The invariant of the loop over all records, before record \<open>k\<close> is reached, on a table
  whose relation \<open>accepts\<close> is symmetric and transitive. The counter is a number above all
  ids in use; the processed records are the records before \<open>k\<close> and the candidates they
  accept; a record has an id when it is processed and accepts some candidate; and two
  records have the same id exactly when one accepts the other.
\<close>

definition gm_inv :: "(count_row \<Rightarrow> count_row \<Rightarrow> rat) \<Rightarrow> rat \<Rightarrow> count_row list \<Rightarrow> nat \<Rightarrow> gm_state \<Rightarrow> bool" where
  "gm_inv cd max_rate df_count k st \<longleftrightarrow>
     length (s_groups st) = length df_count
     \<and> (\<exists>c. group_id st = Some c \<and> (\<forall>j<length df_count. \<forall>g. s_groups st ! j = Some g \<longrightarrow> g < c))
     \<and> (\<forall>j. j \<in> set (idx_out st) \<longleftrightarrow> j < length df_count \<and> (j < k \<or> (\<exists>i<k. accepts cd max_rate df_count i j)))
     \<and> (\<forall>j<length df_count. s_groups st ! j \<noteq> None \<longleftrightarrow> j \<in> set (idx_out st) \<and> (\<exists>i. accepts cd max_rate df_count j i))
     \<and> (\<forall>i<length df_count. \<forall>j<length df_count. i \<noteq> j \<longrightarrow> s_groups st ! i \<noteq> None \<longrightarrow>
           (s_groups st ! i = s_groups st ! j \<longleftrightarrow> accepts cd max_rate df_count i j))"

text \<open>
  Modelled from the spec: the helper \<open>character_distance\<close> is called at source line 75 and
  defined nowhere in the source file. The specification describes its value as a distance
  "estimated from amino-acid count differences", compared as distance over length with the
  threshold, and gives no formula. A helper of this description is an estimate \<open>est\<close>, a
  function of the letter counts of the reference and of the candidate, over the length of
  the reference.
\<close>

definition count_estimate_helper :: "(nat list \<Rightarrow> nat list \<Rightarrow> rat) \<Rightarrow> count_row \<Rightarrow> count_row \<Rightarrow> rat" where
  "count_estimate_helper est prot sub = est (aa_counts prot) (aa_counts sub) / of_nat (len prot)"

text \<open>
  Modelled from the spec: the estimate is called an "upper bound on true substitution
  count". For two sequences of the same length over the alphabet, the number of positions
  at which they differ is at most the estimate.
\<close>

definition upper_bound_estimate :: "(nat list \<Rightarrow> nat list \<Rightarrow> rat) \<Rightarrow> bool" where
  "upper_bound_estimate est \<longleftrightarrow>
     (\<forall>s t. set s \<subseteq> set AA_letters \<and> set t \<subseteq> set AA_letters \<and> length s = length t \<longrightarrow>
        of_nat (n_diff s t (length s)) \<le> est (aa_counts (df_count_row s)) (aa_counts (df_count_row t)))"


section \<open>Errors and table rows\<close>

text \<open>The Python exceptions that the modelled functions can raise.\<close>

datatype py_error =
  IndexError | KeyError | ValueError | AssertionError | UnboundLocalError
  | ZeroDivisionError | TypeError | RuntimeError

text \<open>
  A row of the protein table after grouping: \<open>seq_id\<close> is the index label, \<open>seq_len\<close> the
  column "len", \<open>sub_group\<close> is \<open>None\<close> for NaN and \<open>sub_locations\<close> is \<open>None\<close> when the
  entry is not a list.
\<close>

record protein =
  seq_id :: int
  protein_sequence :: string
  pH :: rat
  tm :: rat
  sub_group :: "nat option"
  sub_locations :: "int list option"
  seq_len :: nat

text \<open>\<open>df.loc[i]\<close> on a table with unique index labels.\<close>

definition df_loc :: "protein list \<Rightarrow> int \<Rightarrow> py_error + protein" where
  "df_loc df i = (case find (\<lambda>p. seq_id p = i) df of None \<Rightarrow> Inl KeyError | Some p \<Rightarrow> Inr p)"

text \<open>
  \<open>df.groupby("sub_group")\<close>: the group keys in ascending order (rows with NaN are left
  out), each with its rows in table order.
\<close>

definition group_keys :: "protein list \<Rightarrow> nat list" where
  "group_keys df = sort (remdups (List.map_filter sub_group df))"

definition group_rows :: "protein list \<Rightarrow> nat \<Rightarrow> protein list" where
  "group_rows df g = filter (\<lambda>p. sub_group p = Some g) df"

section \<open>Mutation locations (locate_mutations)\<close>

text \<open>
  The floats of the table (pH, tm) are rationals: every float is one. What floating-point
  arithmetic adds is the rounding of each result; the rounding of a real number to a float
  is the argument \<open>fl\<close> of the model, so that a statement for every \<open>fl\<close> holds for the
  rounding of the machine. The identity is the exact arithmetic.

  The median of a non-empty series, as pandas computes it: the middle value of the sorted
  series, and for an even number of values the mean of the two middle values, that is
  their rounded sum divided by two, rounded.
\<close>

definition median :: "(rat \<Rightarrow> rat) \<Rightarrow> rat list \<Rightarrow> rat" where
  "median fl xs =
     (let ys = sort xs; n = length ys
      in if n mod 2 = 1 then ys ! (n div 2)
         else fl (fl (ys ! (n div 2 - 1) + ys ! (n div 2)) / 2))"

text \<open>\<open>np.argmin\<close>: the first position of the least value.\<close>

definition argmin :: "rat list \<Rightarrow> nat" where
  "argmin xs = (let m = fold min xs (hd xs) in length (takeWhile (\<lambda>x. x \<noteq> m) xs))"


text \<open>
  The distances \<open>np.abs(group["tm"] - median)\<close> of the members of a group from the median
  of the group: the rounded difference, without its sign.
\<close>

definition tm_distances :: "(rat \<Rightarrow> rat) \<Rightarrow> protein list \<Rightarrow> rat list" where
  "tm_distances fl grp = (let med = median fl (map tm grp) in map (\<lambda>p. \<bar>fl (tm p - med)\<bar>) grp)"

text \<open>
  The choice of the reference of a group (source lines 127 to 132): the drawn row for a
  group of two rows, and otherwise the row at the first least distance.
\<close>

definition reference_index :: "(rat \<Rightarrow> rat) \<Rightarrow> bool \<Rightarrow> protein list \<Rightarrow> nat" where
  "reference_index fl pick grp =
     (if length grp = 2 then (if pick then 1 else 0) else argmin (tm_distances fl grp))"

text \<open>
  The comparison of one other member with the reference (source lines 137 to 143): reading
  either sequence at a position beyond its end raises IndexError.
\<close>

definition diff_loc :: "string \<Rightarrow> string \<Rightarrow> nat \<Rightarrow> py_error + nat list" where
  "diff_loc prot_other_seq prot_seq_ref n =
     (if n \<le> length prot_other_seq \<and> n \<le> length prot_seq_ref
      then Inr (filter (\<lambda>i. prot_other_seq ! i \<noteq> prot_seq_ref ! i) [0..<n])
      else Inl IndexError)"

fun locate_others :: "protein \<Rightarrow> protein list \<Rightarrow> (int \<rightharpoonup> nat list) \<Rightarrow> py_error + (int \<rightharpoonup> nat list)" where
  "locate_others prot_ref [] locations = Inr locations"
| "locate_others prot_ref (prot_other # rest) locations =
     (case diff_loc (protein_sequence prot_other) (protein_sequence prot_ref) (seq_len prot_ref) of
        Inl e \<Rightarrow> Inl e
      | Inr d \<Rightarrow>
          locate_others prot_ref rest
            (if length d > 0 then locations(seq_id prot_other \<mapsto> d) else locations))"

definition locate_group :: "(rat \<Rightarrow> rat) \<Rightarrow> bool \<Rightarrow> protein list \<Rightarrow> (int \<rightharpoonup> nat list) \<Rightarrow> py_error + (int \<rightharpoonup> nat list)" where
  "locate_group fl pick grp locations =
     (let prot_ref = grp ! reference_index fl pick grp
      in locate_others prot_ref (filter (\<lambda>p. seq_id p \<noteq> seq_id prot_ref) grp) locations)"

fun locate_groups :: "(rat \<Rightarrow> rat) \<Rightarrow> (nat \<Rightarrow> bool) \<Rightarrow> protein list \<Rightarrow> nat list \<Rightarrow> (int \<rightharpoonup> nat list) \<Rightarrow> py_error + (int \<rightharpoonup> nat list)" where
  "locate_groups fl pick df [] locations = Inr locations"
| "locate_groups fl pick df (g # gs) locations =
     (case locate_group fl (pick g) (group_rows df g) locations of
        Inl e \<Rightarrow> Inl e
      | Inr locations' \<Rightarrow> locate_groups fl pick df gs locations')"

definition locate_mutations :: "(rat \<Rightarrow> rat) \<Rightarrow> (nat \<Rightarrow> bool) \<Rightarrow> protein list \<Rightarrow> py_error + (int \<rightharpoonup> nat list)" where
  "locate_mutations fl pick df = locate_groups fl pick df (group_keys df) Map.empty"


text \<open>
  The statement of the result, in the words of the specification: the reference of a
  group, and the ascending list of the positions below the reference's length at which a
  member differs from the reference.
\<close>

definition group_reference :: "(rat \<Rightarrow> rat) \<Rightarrow> (nat \<Rightarrow> bool) \<Rightarrow> protein list \<Rightarrow> nat \<Rightarrow> protein" where
  "group_reference fl pick df g = group_rows df g ! reference_index fl (pick g) (group_rows df g)"

definition mutation_sites :: "protein \<Rightarrow> protein \<Rightarrow> nat list" where
  "mutation_sites p prot_ref =
     sorted_list_of_set
       {i. i < seq_len prot_ref \<and> protein_sequence p ! i \<noteq> protein_sequence prot_ref ! i}"

section \<open>Windowing (get_number_AA, truncate_sequence)\<close>

text \<open>
  The settings dictionary. \<open>max_length\<close> and \<open>sample_splits\<close> may be None, \<open>truncate_mode\<close> (the key
  "truncate") is a string or None, \<open>overlap\<close> is a float, taken as a rational (the products with it are
  computed exactly).
\<close>

record settings =
  max_length :: "nat option"
  truncate_mode :: "string option"
  overlap :: rat
  sample_splits :: "nat option"

text \<open>Python's \<open>int(x)\<close> on a number: truncation towards zero.\<close>

definition py_int :: "rat \<Rightarrow> int" where
  "py_int x = (if 0 \<le> x then \<lfloor>x\<rfloor> else \<lceil>x\<rceil>)"

text \<open>
  get_number_AA (source lines 196 to 217). The result is \<open>None\<close> where the source returns
  None: a "single" mode without max_length, or a mode that is none of the three cases.
\<close>

definition get_number_AA :: "string \<Rightarrow> settings \<Rightarrow> py_error + int option" where
  "get_number_AA prot_seq st =
     (if truncate_mode st = Some ''single'' then Inr (map_option int (max_length st))
      else if truncate_mode st = Some ''split'' then
        (case max_length st of
           None \<Rightarrow> Inl TypeError
         | Some m \<Rightarrow>
             (let jump_length = py_int (of_nat m * (1 - overlap st))
              in if jump_length = 0 then Inl ZeroDivisionError
                 else
                   (let n_splits = \<lceil>(of_nat (length prot_seq) - of_nat m) / (of_int jump_length :: rat)\<rceil> + 1
                    in case sample_splits st of
                         None \<Rightarrow> Inr (Some (n_splits * int m))
                       | Some k \<Rightarrow> Inr (Some (int m * min n_splits (int k))))))
      else if truncate_mode st = None then Inr (Some (int (length prot_seq)))
      else Inr None)"

text \<open>
  The random draws of one call of truncate_sequence are arguments of the model, so that a
  statement about every run quantifies over them: \<open>choice_draw\<close> selects the element that
  \<open>np.random.choice(diff_locations)\<close> returns (reduced modulo the number of elements),
  \<open>normal_rint\<close> is the rounded normal sample, \<open>randint_draw\<close> selects the value of
  \<open>np.random.randint(0, high)\<close> (reduced modulo \<open>high\<close>), and \<open>idx_sample\<close> is the list of
  window indices drawn without replacement in "split" mode (distinct indices of existing
  windows, as many as sample_splits).
\<close>

record draws =
  choice_draw :: nat
  normal_rint :: int
  randint_draw :: nat
  idx_sample :: "nat list"

text \<open>Python's slice \<open>xs[a:b]\<close>, where a negative bound counts from the end.\<close>

definition py_bound :: "int \<Rightarrow> nat \<Rightarrow> nat" where
  "py_bound i n = (if i < 0 then nat (max 0 (i + int n)) else min (nat i) n)"

definition py_slice :: "'a list \<Rightarrow> int \<Rightarrow> int \<Rightarrow> 'a list" where
  "py_slice xs a b =
     (let lo = py_bound a (length xs); hi = py_bound b (length xs)
      in take (hi - lo) (drop lo xs))"

text \<open>\<open>np.arange(a, b)\<close> on integers.\<close>

definition arange :: "int \<Rightarrow> int \<Rightarrow> int list" where
  "arange a b = [a..b - 1]"

text \<open>\<open>np.clip(x, lo, hi)\<close>.\<close>

definition clip :: "int \<Rightarrow> int \<Rightarrow> int \<Rightarrow> int" where
  "clip x lo hi = min (max x lo) hi"

text \<open>
  The start index of the "single" mode (source lines 236 to 247). With preferred positions
  the start is a rounded normal sample clipped to \<open>[0, len(prot_seq) - 1]\<close>; a normal
  distribution of scale zero returns its mean. Without them it is drawn by
  \<open>randint(0, len(prot_seq) - max_length + 1)\<close>, which raises ValueError on an empty
  range; so does \<open>np.random.choice\<close> on an empty list.
\<close>

definition single_start :: "string \<Rightarrow> nat \<Rightarrow> int list option \<Rightarrow> draws \<Rightarrow> py_error + int" where
  "single_start prot_seq m diff_locations rnd =
     (case diff_locations of
        Some dl \<Rightarrow>
          (if dl = [] then Inl ValueError
           else
             (let loc = dl ! (choice_draw rnd mod length dl);
                  location_scale = m div 2;
                  mean = max 0 (loc - int (m div 2));
                  sample_start = (if location_scale = 0 then mean else normal_rint rnd)
              in Inr (clip sample_start 0 (int (length prot_seq) - 1))))
      | None \<Rightarrow>
          (let high = int (length prot_seq) - int m + 1
           in if high \<le> 0 then Inl ValueError
              else Inr (int (randint_draw rnd mod nat high))))"

definition truncate_single :: "string \<Rightarrow> settings \<Rightarrow> int list option \<Rightarrow> draws \<Rightarrow> py_error + (string list \<times> int list list)" where
  "truncate_single prot_seq st diff_locations rnd =
     (case max_length st of
        None \<Rightarrow> Inl TypeError
      | Some m \<Rightarrow>
          (case single_start prot_seq m diff_locations rnd of
             Inl e \<Rightarrow> Inl e
           | Inr idx_start \<Rightarrow>
               Inr ([py_slice prot_seq idx_start (idx_start + int m)],
                    [arange idx_start (idx_start + int m)])))"

text \<open>
  The "split" mode (source lines 257 to 291). The weights and the softmax only shape the
  distribution of the draw \<open>idx_sample\<close> and are not modelled, nor is a failure of the
  draw on degenerate floating-point weights.
\<close>

definition truncate_split :: "string \<Rightarrow> settings \<Rightarrow> int list option \<Rightarrow> draws \<Rightarrow> py_error + (string list \<times> int list list)" where
  "truncate_split prot_seq0 st diff_locations rnd =
     (case max_length st of
        None \<Rightarrow> Inl TypeError
      | Some m \<Rightarrow>
          (let prot_seq = ''X'' @ prot_seq0 @ ''X'';
               jump_length = py_int (of_nat m * (1 - overlap st))
           in if jump_length = 0 then Inl ZeroDivisionError
              else
                (let stop_at = \<lceil>(of_nat (length prot_seq) - of_nat m) / (of_int jump_length :: rat)\<rceil>;
                     idx_split = map (\<lambda>k. jump_length * k) (arange 0 (stop_at + 1));
                     prot_seq_trunc = map (\<lambda>j. py_slice prot_seq j (j + int m)) idx_split;
                     aa_positions_ids =
                       map (\<lambda>j. arange j (min (j + int m) (int (length prot_seq)))) idx_split;
                     n = length prot_seq_trunc
                 in case sample_splits st of
                      None \<Rightarrow> Inr (prot_seq_trunc, aa_positions_ids)
                    | Some k \<Rightarrow>
                        if n > k
                        then Inr (map (\<lambda>j. prot_seq_trunc ! j) (idx_sample rnd),
                                  map (\<lambda>j. aa_positions_ids ! j) (idx_sample rnd))
                        else Inr (prot_seq_trunc, aa_positions_ids))))"

text \<open>
  truncate_sequence (source lines 219 to 293). The two results are assigned only inside the
  two mode branches; with any other mode the final \<open>return\<close> reads names that were never
  bound.
\<close>

definition truncate_sequence :: "string \<Rightarrow> settings \<Rightarrow> int list option \<Rightarrow> draws \<Rightarrow> py_error + (string list \<times> int list list)" where
  "truncate_sequence prot_seq st diff_locations rnd =
     (if (case diff_locations of None \<Rightarrow> False | Some dl \<Rightarrow> list_ex (\<lambda>x. x < 0) dl)
      then Inl AssertionError
      else if \<not> (0 \<le> overlap st \<and> overlap st < 1) then Inl AssertionError
      else
        (case (if truncate_mode st = Some ''single''
               then map_sum (\<lambda>e. e) Some (truncate_single prot_seq st diff_locations rnd)
               else Inr None) of
           Inl e \<Rightarrow> Inl e
         | Inr r1 \<Rightarrow>
             (case (if truncate_mode st = Some ''split''
                    then map_sum (\<lambda>e. e) Some (truncate_split prot_seq st diff_locations rnd)
                    else Inr r1) of
                Inl e \<Rightarrow> Inl e
              | Inr None \<Rightarrow> Inl UnboundLocalError
              | Inr (Some r) \<Rightarrow> Inr r)))"


section \<open>Python values and items\<close>

text \<open>
  The values held by the dictionaries that __getitem__ returns and collate reads. A tensor
  is its shape and its entries in row-major order (a scalar tensor has the empty shape);
  entries are rationals.
\<close>

datatype pyvalue =
  Tensor "nat list" "rat list"
  | PyInt int
  | PyNum rat
  | PyStr string
  | PyList "pyvalue list"

type_synonym dict = "(string \<times> pyvalue) list"

definition dict_get :: "dict \<Rightarrow> string \<Rightarrow> py_error + pyvalue" where
  "dict_get d k = (case map_of d k of None \<Rightarrow> Inl KeyError | Some v \<Rightarrow> Inr v)"

definition has_key :: "dict \<Rightarrow> string \<Rightarrow> bool" where
  "has_key d k = (map_of d k \<noteq> None)"

section \<open>The pair dataset (DatasetPairs)\<close>

text \<open>
  A row of \<open>df_pairs\<close>. The columns "i_batch" and "sub_group" carry the suffix \<open>_col\<close>, the
  names being taken by a loop variable and by the protein table.
\<close>

record pair_row =
  id_1 :: int
  id_2 :: int
  i_batch_col :: nat
  diff_tm :: rat
  sub_group_col :: "nat option"
  diff_locations_col :: "int list"

text \<open>
  The tokenised branches of __getitem__ (source lines 657 to 712 and 719 to 749) depend on
  the external tokenizer and on torch. A tokenizer that is not None is represented by the
  function that these branches compute: from the row, the index, the index of the pair and
  the windows (\<open>None\<close> when the sequence is not windowed) to the item or an error.
\<close>

type_synonym tokenizer = "protein \<Rightarrow> int \<Rightarrow> nat \<Rightarrow> (string list \<times> int list list) option \<Rightarrow> py_error + dict"

text \<open>
  The object: the table \<open>df_mutations\<close> with its column "occurrence" kept apart (it is the
  only column that is written), the tokenizer, the settings, and the two attributes that
  pair_sampler sets.
\<close>

record dataset_pairs =
  df_mutations :: "protein list"
  occurrence :: "int \<Rightarrow> nat"
  tokenizer :: "tokenizer option"
  ds_settings :: settings
  dict_sampled :: "int \<rightharpoonup> nat list"
  df_pairs :: "pair_row list"

text \<open>
  DatasetPairs.__init__ (source lines 601 to 615): the occurrence counters start at zero
  and neither \<open>dict_sampled\<close> nor \<open>df_pairs\<close> exists yet (both are empty here).
\<close>

definition DatasetPairs_init :: "protein list \<Rightarrow> tokenizer option \<Rightarrow> settings \<Rightarrow> dataset_pairs" where
  "DatasetPairs_init df tk st =
     \<lparr>df_mutations = df, occurrence = (\<lambda>_. 0), tokenizer = tk, ds_settings = st,
      dict_sampled = Map.empty, df_pairs = []\<rparr>"

text \<open>Python's \<open>xs[i]\<close>, a negative index counting from the end.\<close>

definition py_nth :: "'a list \<Rightarrow> int \<Rightarrow> py_error + 'a" where
  "py_nth xs i =
     (if 0 \<le> i \<and> i < int (length xs) then Inr (xs ! nat i)
      else if i < 0 \<and> - int (length xs) \<le> i then Inr (xs ! nat (int (length xs) + i))
      else Inl IndexError)"

text \<open>
  The positions of a sampled pair (source lines 816 to 826): the union of the recorded
  mutation sites of both members, kept where the residues differ. The source iterates over
  a Python set, whose order is not specified; the order of first occurrence is taken.
\<close>

fun pair_diff_locations :: "string \<Rightarrow> string \<Rightarrow> int list \<Rightarrow> py_error + int list" where
  "pair_diff_locations prot_seq_1 prot_seq_2 [] = Inr []"
| "pair_diff_locations prot_seq_1 prot_seq_2 (loc # locs) =
     (case py_nth prot_seq_1 loc of
        Inl e \<Rightarrow> Inl e
      | Inr c1 \<Rightarrow>
          (case py_nth prot_seq_2 loc of
             Inl e \<Rightarrow> Inl e
           | Inr c2 \<Rightarrow>
               (case pair_diff_locations prot_seq_1 prot_seq_2 locs of
                  Inl e \<Rightarrow> Inl e
                | Inr ds \<Rightarrow> Inr (if c1 \<noteq> c2 then loc # ds else ds))))"

definition sub_locations_union :: "protein \<Rightarrow> protein \<Rightarrow> int list" where
  "sub_locations_union prot_1 prot_2 =
     remdups ((case sub_locations prot_1 of None \<Rightarrow> [] | Some l \<Rightarrow> l)
              @ (case sub_locations prot_2 of None \<Rightarrow> [] | Some l \<Rightarrow> l))"

text \<open>The loop state of pair_sampler: the locals and the attributes that the loop writes.\<close>

record ps_state =
  i_batch :: nat
  i_pair :: nat
  dict_pairs :: "((int \<times> int) \<times> pair_row) list"
  ps_sampled :: "int \<rightharpoonup> nat list"
  ps_occurrence :: "int \<Rightarrow> nat"

definition append_sampled :: "(int \<rightharpoonup> nat list) \<Rightarrow> int \<Rightarrow> nat \<Rightarrow> (int \<rightharpoonup> nat list)" where
  "append_sampled m k i = m(k \<mapsto> (case m k of None \<Rightarrow> [i] | Some q \<Rightarrow> q @ [i]))"

text \<open>
  The body of the inner loop for the pair at \<open>i_pair\<close> (source lines 783 to 828), without
  the final increment of \<open>i_pair\<close>; it returns the cost \<open>n_AA\<close> of the first member. The
  entry of \<open>dict_pairs\<close> is written in one step.
\<close>

definition sample_pair :: "protein list \<Rightarrow> settings \<Rightarrow> (int \<times> int) list \<Rightarrow> ps_state \<Rightarrow> py_error + (int \<times> ps_state)" where
  "sample_pair df st all_pairs s =
     (case all_pairs ! i_pair s of (i1, i2) \<Rightarrow>
        (case df_loc df i1 of
           Inl e \<Rightarrow> Inl e
         | Inr prot_1 \<Rightarrow>
             (case df_loc df i2 of
                Inl e \<Rightarrow> Inl e
              | Inr prot_2 \<Rightarrow>
                  (case get_number_AA (protein_sequence prot_1) st of
                     Inl e \<Rightarrow> Inl e
                   | Inr None \<Rightarrow> Inl TypeError
                   | Inr (Some n_AA) \<Rightarrow>
                       (case pair_diff_locations (protein_sequence prot_1) (protein_sequence prot_2)
                               (sub_locations_union prot_1 prot_2) of
                          Inl e \<Rightarrow> Inl e
                        | Inr dl \<Rightarrow>
                            Inr (n_AA,
                              s\<lparr>dict_pairs :=
                                   AList.update (i1, i2)
                                     \<lparr>id_1 = i1, id_2 = i2, i_batch_col = i_batch s,
                                      diff_tm = tm prot_1 - tm prot_2,
                                      sub_group_col = sub_group prot_1,
                                      diff_locations_col = dl\<rparr> (dict_pairs s),
                                ps_sampled := append_sampled (append_sampled (ps_sampled s) i1 (i_pair s)) i2 (i_pair s),
                                ps_occurrence :=
                                  (let occ = (ps_occurrence s)(i1 := ps_occurrence s i1 + 1)
                                   in occ(i2 := occ i2 + 1))\<rparr>))))))"

text \<open>
  The inner loop (source lines 782 to 830): pairs are taken until the batch cost reaches
  \<open>batch_size_min\<close>; reading past the end of \<open>all_pairs\<close> raises IndexError.
\<close>

function sample_batch :: "protein list \<Rightarrow> settings \<Rightarrow> int \<Rightarrow> (int \<times> int) list \<Rightarrow> int \<Rightarrow> ps_state \<Rightarrow> py_error + ps_state" where
  "sample_batch df st batch_size_min all_pairs batch_size s =
     (if batch_size < batch_size_min then
        (if length all_pairs \<le> i_pair s then Inl IndexError
         else
           (case sample_pair df st all_pairs s of
              Inl e \<Rightarrow> Inl e
            | Inr (n_AA, s') \<Rightarrow>
                sample_batch df st batch_size_min all_pairs (batch_size + 2 * n_AA)
                  (s'\<lparr>i_pair := Suc (i_pair s)\<rparr>)))
      else Inr s)"
  by pat_completeness auto
termination
  by (relation "measure (\<lambda>(df, st, bmin, all_pairs, bs, s). length all_pairs - i_pair s)") auto

declare sample_batch.simps [simp del]

text \<open>
  The outer loop (source lines 778 to 832). \<open>coverage_rate\<close> is set to 0 before the loop
  and is not assigned inside it, so the second conjunct of the loop condition compares 0
  with \<open>coverage_rate_min\<close> (infinity when the argument is None). The loop need not end:
  not returning is the value \<open>None\<close>.
\<close>

partial_function (option) sample_batches :: "protein list \<Rightarrow> settings \<Rightarrow> int \<Rightarrow> int option \<Rightarrow> rat option \<Rightarrow> (int \<times> int) list \<Rightarrow> ps_state \<Rightarrow> (py_error + ps_state) option" where
  "sample_batches df st batch_size_min n_batches_max coverage_rate_min all_pairs s =
     (if (case n_batches_max of None \<Rightarrow> True | Some n \<Rightarrow> int (i_batch s) \<le> n)
         \<and> (case coverage_rate_min of None \<Rightarrow> True | Some c \<Rightarrow> 0 < c)
      then
        (case sample_batch df st batch_size_min all_pairs 0 s of
           Inl e \<Rightarrow> Some (Inl e)
         | Inr s' \<Rightarrow>
             sample_batches df st batch_size_min n_batches_max coverage_rate_min all_pairs
               (s'\<lparr>i_batch := Suc (i_batch s')\<rparr>))
      else Some (Inr s))"

declare sample_batches.simps [code]

text \<open>
  The coverage rate that the source computes after the loop (lines 844 to 847): the share of
  the rows of the table whose index occurs in a sampled pair.
\<close>

definition coverage_rate :: "protein list \<Rightarrow> pair_row list \<Rightarrow> rat" where
  "coverage_rate df rows =
     of_nat (length (filter (\<lambda>p. seq_id p \<in> set (map id_1 rows @ map id_2 rows)) df))
       / of_nat (length df)"

text \<open>The returned list (source lines 853 to 856): per batch, all id_1 and then all id_2.\<close>

definition list_batch_ids :: "pair_row list \<Rightarrow> int list list" where
  "list_batch_ids rows =
     map (\<lambda>b. (let batch = filter (\<lambda>r. i_batch_col r = b) rows in map id_1 batch @ map id_2 batch))
       (sort (remdups (map i_batch_col rows)))"

text \<open>
  pair_sampler (source lines 751 to 858). \<open>all_pairs\<close> is the randomly permuted list of all
  pairs within the groups, an argument of the model. An empty \<open>dict_pairs\<close> gives a table
  without the column "id_1", whose access raises KeyError.
\<close>

definition pair_sampler :: "dataset_pairs \<Rightarrow> int \<Rightarrow> int option \<Rightarrow> rat option \<Rightarrow> (int \<times> int) list \<Rightarrow> (py_error + (int list list \<times> dataset_pairs)) option" where
  "pair_sampler ds batch_size_min n_batches_max coverage_rate_min all_pairs =
     (if n_batches_max = None \<and> coverage_rate_min = None then Some (Inl AssertionError)
      else
        (case sample_batches (df_mutations ds) (ds_settings ds) batch_size_min n_batches_max
                coverage_rate_min all_pairs
                \<lparr>i_batch = 0, i_pair = 0, dict_pairs = [], ps_sampled = Map.empty,
                 ps_occurrence = occurrence ds\<rparr> of
           None \<Rightarrow> None
         | Some (Inl e) \<Rightarrow> Some (Inl e)
         | Some (Inr s) \<Rightarrow>
             (if dict_pairs s = [] then Some (Inl KeyError)
              else Some (Inr (list_batch_ids (map snd (dict_pairs s)),
                     ds\<lparr>occurrence := ps_occurrence s, dict_sampled := ps_sampled s,
                        df_pairs := map snd (dict_pairs s)\<rparr>)))))"

text \<open>
  The number of rows of \<open>df_pairs\<close> in which a record takes part, and the indices of these
  rows.
\<close>

definition participation :: "int \<Rightarrow> pair_row list \<Rightarrow> nat" where
  "participation k rows = length (filter (\<lambda>r. id_1 r = k \<or> id_2 r = k) rows)"

definition pair_indices :: "int \<Rightarrow> pair_row list \<Rightarrow> nat list" where
  "pair_indices k rows = filter (\<lambda>j. id_1 (rows ! j) = k \<or> id_2 (rows ! j) = k) [0..<length rows]"

text \<open>
  The invariant of the two loops of pair_sampler, for the pair list \<open>all_pairs\<close> and the
  occurrence counters \<open>occ0\<close> at the start of the run: the rows written so far are the
  pairs before \<open>i_pair\<close>, in order; every counter has grown by the number of these pairs
  that contain the record; and the queue of a record lists the indices of these pairs.
\<close>

definition queue_upto :: "(int \<times> int) list \<Rightarrow> int \<Rightarrow> nat \<Rightarrow> nat list" where
  "queue_upto all_pairs k n = filter (\<lambda>j. fst (all_pairs ! j) = k \<or> snd (all_pairs ! j) = k) [0..<n]"

definition ps_inv :: "(int \<times> int) list \<Rightarrow> (int \<Rightarrow> nat) \<Rightarrow> ps_state \<Rightarrow> bool" where
  "ps_inv all_pairs occ0 s \<longleftrightarrow>
     i_pair s \<le> length all_pairs
     \<and> map fst (dict_pairs s) = take (i_pair s) all_pairs
     \<and> map (\<lambda>kr. (id_1 (snd kr), id_2 (snd kr))) (dict_pairs s) = take (i_pair s) all_pairs
     \<and> (\<forall>k. ps_occurrence s k = occ0 k + length (queue_upto all_pairs k (i_pair s)))
     \<and> (\<forall>k. ps_sampled s k =
            (if queue_upto all_pairs k (i_pair s) = [] then None
             else Some (queue_upto all_pairs k (i_pair s))))"

text \<open>
  The test of source lines 339 and 340, and again 643 and 644: a maximal length is set and
  the sequence is longer than \<open>max_length - 2\<close>.
\<close>

definition needs_window :: "settings \<Rightarrow> string \<Rightarrow> bool" where
  "needs_window st prot_seq =
     (case max_length st of None \<Rightarrow> False | Some m \<Rightarrow> int (length prot_seq) > int m - 2)"

text \<open>
  DatasetPairs.__getitem__ (source lines 620 to 749). The dictionary \<open>data\<close> is created only
  at the end of the function (line 738); the two branches for a missing tokenizer write
  into it before that.
\<close>

definition getitem_pairs :: "dataset_pairs \<Rightarrow> int \<Rightarrow> draws \<Rightarrow> py_error + (dict \<times> dataset_pairs)" where
  "getitem_pairs ds i rnd =
     (case df_loc (df_mutations ds) i of
        Inl e \<Rightarrow> Inl e
      | Inr prot \<Rightarrow>
          (case dict_sampled ds i of
             None \<Rightarrow> Inl KeyError
           | Some [] \<Rightarrow> Inl IndexError
           | Some (i_pair0 # rest) \<Rightarrow>
               (let ds' = ds\<lparr>dict_sampled := (dict_sampled ds)(i \<mapsto> rest)\<rparr>
                in if length (df_pairs ds) \<le> i_pair0 then Inl KeyError
                   else
                     (let pair = df_pairs ds ! i_pair0;
                          diff_locations = diff_locations_col pair;
                          prot_seq = protein_sequence prot;
                          st = ds_settings ds
                      in if needs_window st prot_seq
                         then
                           (if truncate_mode st \<noteq> Some ''single'' \<and> truncate_mode st \<noteq> Some ''split''
                            then Inl AssertionError
                            else
                              (case truncate_sequence prot_seq st (Some diff_locations) rnd of
                                 Inl e \<Rightarrow> Inl e
                               | Inr w \<Rightarrow>
                                   (case tokenizer ds of
                                      None \<Rightarrow> Inl UnboundLocalError
                                    | Some tk \<Rightarrow>
                                        map_sum (\<lambda>e. e) (\<lambda>d. (d, ds')) (tk prot i i_pair0 (Some w)))))
                         else
                           (case tokenizer ds of
                              None \<Rightarrow> Inl UnboundLocalError
                            | Some tk \<Rightarrow> map_sum (\<lambda>e. e) (\<lambda>d. (d, ds')) (tk prot i i_pair0 None))))))"


section \<open>The single-sequence dataset (Dataset)\<close>

text \<open>
  Dataset.__getitem__ (source lines 322 to 454), the sibling of DatasetPairs.__getitem__
  for single sequences. The row is read by position (\<open>self.df.iloc[i]\<close>), and the
  dictionary \<open>data\<close> is created at the start (line 326), before the two branches for a
  missing tokenizer write into it. The table has the column "tm". A tokenizer that is not
  None is represented as for the pairs, by the function that the tokenised branches
  compute from the row, the index and the windows. The attributes \<open>df\<close>, \<open>tokenizer\<close> and
  \<open>settings\<close> of the object carry the prefix \<open>sd_\<close>.
\<close>

type_synonym single_tokenizer = "protein \<Rightarrow> int \<Rightarrow> (string list \<times> int list list) option \<Rightarrow> py_error + dict"

record dataset =
  sd_df :: "protein list"
  sd_tokenizer :: "single_tokenizer option"
  sd_settings :: settings

definition getitem_single :: "dataset \<Rightarrow> int \<Rightarrow> draws \<Rightarrow> py_error + dict" where
  "getitem_single ds i rnd =
     (case py_nth (sd_df ds) i of
        Inl e \<Rightarrow> Inl e
      | Inr prot \<Rightarrow>
          (let data = [(''id'', PyInt i), (''pH'', PyNum (pH prot)), (''tm'', PyNum (tm prot))];
               prot_seq = protein_sequence prot;
               st = sd_settings ds
           in if needs_window st prot_seq
              then
                (if truncate_mode st \<noteq> Some ''single'' \<and> truncate_mode st \<noteq> Some ''split''
                 then Inl AssertionError
                 else
                   (case truncate_sequence prot_seq st (sub_locations prot) rnd of
                      Inl e \<Rightarrow> Inl e
                    | Inr w \<Rightarrow>
                        (case sd_tokenizer ds of
                           None \<Rightarrow> Inr (data @ [(''protein_sequence'', PyList (map PyStr (fst w)))])
                         | Some tk \<Rightarrow> tk prot i (Some w))))
              else
                (case sd_tokenizer ds of
                   None \<Rightarrow> Inr (data @ [(''protein_sequence'', PyStr prot_seq)])
                 | Some tk \<Rightarrow> tk prot i None)))"


section \<open>Batch collation (Dataset.collate, DatasetPairs.collate)\<close>

text \<open>\<open>len(v)\<close>: a scalar tensor and a number have no length.\<close>

definition py_len :: "pyvalue \<Rightarrow> py_error + nat" where
  "py_len v =
     (case v of
        Tensor sh xs \<Rightarrow> (case sh of [] \<Rightarrow> Inl TypeError | n # _ \<Rightarrow> Inr n)
      | PyList vs \<Rightarrow> Inr (length vs)
      | PyStr s \<Rightarrow> Inr (length s)
      | PyInt _ \<Rightarrow> Inl TypeError
      | PyNum _ \<Rightarrow> Inl TypeError)"

definition is_tensor :: "pyvalue \<Rightarrow> bool" where
  "is_tensor v = (case v of Tensor _ _ \<Rightarrow> True | _ \<Rightarrow> False)"

definition shape_of :: "pyvalue \<Rightarrow> nat list" where
  "shape_of v = (case v of Tensor sh _ \<Rightarrow> sh | _ \<Rightarrow> [])"

definition entries_of :: "pyvalue \<Rightarrow> rat list" where
  "entries_of v = (case v of Tensor _ xs \<Rightarrow> xs | _ \<Rightarrow> [])"

text \<open>
  \<open>torch.cat\<close> along the first dimension: the list must be non-empty and hold tensors
  only (TypeError otherwise); empty one-dimensional tensors are skipped; the others must
  have at least one dimension and agree in all dimensions but the first (RuntimeError
  otherwise, the shape mismatch).
\<close>

definition torch_cat :: "pyvalue list \<Rightarrow> py_error + pyvalue" where
  "torch_cat vs =
     (if \<not> list_all is_tensor vs then Inl TypeError
      else if vs = [] then Inl RuntimeError
      else
        (case filter (\<lambda>v. shape_of v \<noteq> [0]) vs of
           [] \<Rightarrow> Inr (Tensor [0] [])
         | v # ws \<Rightarrow>
             (if shape_of v \<noteq> [] \<and> list_all (\<lambda>w. shape_of w \<noteq> [] \<and> tl (shape_of w) = tl (shape_of v)) ws
              then Inr (Tensor (sum_list (map (\<lambda>w. hd (shape_of w)) (v # ws)) # tl (shape_of v))
                          (concat (map entries_of (v # ws))))
              else Inl RuntimeError)))"

text \<open>\<open>torch.stack\<close>: a non-empty list of tensors of one shape.\<close>

definition torch_stack :: "pyvalue list \<Rightarrow> py_error + pyvalue" where
  "torch_stack vs =
     (if \<not> list_all is_tensor vs then Inl TypeError
      else
        (case vs of
           [] \<Rightarrow> Inl RuntimeError
         | v # ws \<Rightarrow>
             (if list_all (\<lambda>w. shape_of w = shape_of v) ws
              then Inr (Tensor (length vs # shape_of v) (concat (map entries_of vs)))
              else Inl RuntimeError)))"

text \<open>
  The accumulators of collate. \<open>tm_acc\<close> is the local list \<open>tm\<close>, which exists only when
  the first item has the key "tm"; \<open>cur\<close> is the binding of the name \<open>data\<close>, which is the
  loop variable and, at the end, the result.
\<close>

record collate_acc =
  input_ids :: "pyvalue list"
  attention_mask :: "pyvalue list"
  position_ids :: "pyvalue list"
  ph :: "pyvalue list"
  ids :: "pyvalue list"
  pair_id :: "pyvalue list"
  n_splits :: "nat list"
  tm_acc :: "pyvalue list option"
  cur :: "dict option"

text \<open>
  One iteration of the loop over the batch (source lines 560 to 572 and 873 to 885); the
  flag \<open>pairs\<close> selects the line that DatasetPairs.collate adds. On an exception the
  accumulators are returned as they stand.
\<close>

definition then_step :: "(py_error \<times> collate_acc) + collate_acc \<Rightarrow> (collate_acc \<Rightarrow> (py_error \<times> collate_acc) + collate_acc) \<Rightarrow> (py_error \<times> collate_acc) + collate_acc" where
  "then_step r f = (case r of Inl ea \<Rightarrow> Inl ea | Inr a \<Rightarrow> f a)"

definition read_key :: "dict \<Rightarrow> string \<Rightarrow> (pyvalue \<Rightarrow> collate_acc \<Rightarrow> collate_acc) \<Rightarrow> collate_acc \<Rightarrow> (py_error \<times> collate_acc) + collate_acc" where
  "read_key d k upd a = (case dict_get d k of Inl e \<Rightarrow> Inl (e, a) | Inr v \<Rightarrow> Inr (upd v a))"

definition read_len :: "dict \<Rightarrow> collate_acc \<Rightarrow> (py_error \<times> collate_acc) + collate_acc" where
  "read_len d a =
     (case dict_get d ''input_ids'' of
        Inl e \<Rightarrow> Inl (e, a)
      | Inr v \<Rightarrow> (case py_len v of Inl e \<Rightarrow> Inl (e, a) | Inr n \<Rightarrow> Inr (a\<lparr>n_splits := n_splits a @ [n]\<rparr>)))"

definition read_tm :: "dict \<Rightarrow> collate_acc \<Rightarrow> (py_error \<times> collate_acc) + collate_acc" where
  "read_tm d a =
     (if has_key d ''tm''
      then (case tm_acc a of
              None \<Rightarrow> Inl (UnboundLocalError, a)
            | Some l \<Rightarrow> read_key d ''tm'' (\<lambda>v a. a\<lparr>tm_acc := Some (l @ [v])\<rparr>) a)
      else Inr a)"

definition collate_step :: "bool \<Rightarrow> dict \<Rightarrow> collate_acc \<Rightarrow> (py_error \<times> collate_acc) + collate_acc" where
  "collate_step pairs d a0 =
     then_step (read_key d ''input_ids'' (\<lambda>v a. a\<lparr>input_ids := input_ids a @ [v]\<rparr>) (a0\<lparr>cur := Some d\<rparr>))
    (\<lambda>a1. then_step (read_key d ''attention_mask'' (\<lambda>v a. a\<lparr>attention_mask := attention_mask a @ [v]\<rparr>) a1)
    (\<lambda>a2. then_step (read_key d ''pH'' (\<lambda>v a. a\<lparr>ph := ph a @ [v]\<rparr>) a2)
    (\<lambda>a3. then_step (read_key d ''id'' (\<lambda>v a. a\<lparr>ids := ids a @ [v]\<rparr>) a3)
    (\<lambda>a4. then_step (if pairs then read_key d ''pair_id'' (\<lambda>v a. a\<lparr>pair_id := pair_id a @ [v]\<rparr>) a4 else Inr a4)
    (\<lambda>a5. then_step (read_len d a5)
    (\<lambda>a6. then_step (read_tm d a6)
    (\<lambda>a7. if has_key d ''position_ids''
           then read_key d ''position_ids'' (\<lambda>v a. a\<lparr>position_ids := position_ids a @ [v]\<rparr>) a7
           else Inr a7)))))))"

fun collate_loop :: "bool \<Rightarrow> dict list \<Rightarrow> collate_acc \<Rightarrow> (py_error \<times> collate_acc) + collate_acc" where
  "collate_loop pairs [] a = Inr a"
| "collate_loop pairs (d # batch) a =
     (case collate_step pairs d a of
        Inl ea \<Rightarrow> Inl ea
      | Inr a' \<Rightarrow> collate_loop pairs batch a')"

text \<open>
  The part after the loop (source lines 574 to 587 and 887 to 901): the three
  concatenations, the result dictionary, and the key "tm" when the first item has it.
\<close>

definition collate_finish :: "bool \<Rightarrow> bool \<Rightarrow> collate_acc \<Rightarrow> (py_error \<times> collate_acc) + dict" where
  "collate_finish pairs tm_first a =
     (case torch_cat (input_ids a) of
        Inl e \<Rightarrow> Inl (e, a)
      | Inr v_ids \<Rightarrow>
          (case torch_cat (attention_mask a) of
             Inl e \<Rightarrow> Inl (e, a)
           | Inr v_mask \<Rightarrow>
               (case torch_cat (position_ids a) of
                  Inl e \<Rightarrow> Inl (e, a)
                | Inr v_pos \<Rightarrow>
                    (case torch_stack (ph a) of
                       Inl e \<Rightarrow> Inl (e, a)
                     | Inr v_ph \<Rightarrow>
                         (let d = [(''input_ids'', v_ids), (''attention_mask'', v_mask),
                                   (''position_ids'', v_pos), (''pH'', v_ph), (''id'', PyList (ids a))]
                                  @ (if pairs then [(''pair_id'', PyList (pair_id a))] else [])
                                  @ [(''n_splits'', PyList (map (\<lambda>n. PyInt (int n)) (n_splits a)))]
                          in if tm_first
                             then (case torch_stack (case tm_acc a of None \<Rightarrow> [] | Some l \<Rightarrow> l) of
                                     Inl e \<Rightarrow> Inl (e, a\<lparr>cur := Some d\<rparr>)
                                   | Inr v_tm \<Rightarrow> Inr (d @ [(''tm'', v_tm)]))
                             else Inr d)))))"

definition collate_body :: "bool \<Rightarrow> dict list \<Rightarrow> (py_error \<times> collate_acc) + dict" where
  "collate_body pairs batch =
     (let tm_first = has_key (hd batch) ''tm'';
          a0 = \<lparr>input_ids = [], attention_mask = [], position_ids = [], ph = [], ids = [],
                pair_id = [], n_splits = [], tm_acc = (if tm_first then Some [] else None),
                cur = None\<rparr>
      in case collate_loop pairs batch a0 of
           Inl ea \<Rightarrow> Inl ea
         | Inr a \<Rightarrow> collate_finish pairs tm_first a)"

text \<open>What the except clause of Dataset.collate prints: the ids gathered so far and the error.\<close>

datatype log_entry = Error_in_protein "pyvalue list" py_error

text \<open>
  Dataset.collate (source lines 548 to 592): the whole body stands in a try block whose
  handler prints; then \<open>return data\<close> yields whatever the name \<open>data\<close> is bound to, and
  fails when it is unbound (an empty batch).
\<close>

definition Dataset_collate :: "dict list \<Rightarrow> log_entry list \<times> (py_error + dict)" where
  "Dataset_collate batch =
     (if batch = [] then ([Error_in_protein [] IndexError], Inl UnboundLocalError)
      else
        (case collate_body False batch of
           Inr d \<Rightarrow> ([], Inr d)
         | Inl (e, a) \<Rightarrow>
             ([Error_in_protein (ids a) e],
              (case cur a of None \<Rightarrow> Inl UnboundLocalError | Some d \<Rightarrow> Inr d))))"

text \<open>
  DatasetPairs.collate (source lines 860 to 903): the same statements with the key
  "pair_id" added, outside any try block.
\<close>

definition DatasetPairs_collate :: "dict list \<Rightarrow> py_error + dict" where
  "DatasetPairs_collate batch =
     (if batch = [] then Inl IndexError
      else
        (case collate_body True batch of
           Inr d \<Rightarrow> Inr d
         | Inl (e, a) \<Rightarrow> Inl e))"


section \<open>Concrete inputs\<close>

text \<open>
  A group of two records that differ in the last position, and a group of two records with
  the same sequence (for which locate_mutations records no position).
\<close>

definition pair_table :: "protein list" where
  "pair_table =
     [\<lparr>seq_id = 0, protein_sequence = ''AAAAA'', pH = 7, tm = 50, sub_group = Some 0,
       sub_locations = None, seq_len = 5\<rparr>,
      \<lparr>seq_id = 1, protein_sequence = ''AAAAB'', pH = 7, tm = 55, sub_group = Some 0,
       sub_locations = Some [4], seq_len = 5\<rparr>]"

definition dup_table :: "protein list" where
  "dup_table =
     [\<lparr>seq_id = 0, protein_sequence = ''AAAAA'', pH = 7, tm = 50, sub_group = Some 0,
       sub_locations = None, seq_len = 5\<rparr>,
      \<lparr>seq_id = 1, protein_sequence = ''AAAAA'', pH = 7, tm = 55, sub_group = Some 0,
       sub_locations = None, seq_len = 5\<rparr>]"


text \<open>Settings without truncation, and settings for a single window of length 4.\<close>

definition no_truncation :: settings where
  "no_truncation = \<lparr>max_length = None, truncate_mode = None, overlap = 0, sample_splits = None\<rparr>"

definition single_window :: settings where
  "single_window = \<lparr>max_length = Some 4, truncate_mode = Some ''single'', overlap = 0, sample_splits = None\<rparr>"

text \<open>Fixed values of the random draws.\<close>

definition draws0 :: draws where
  "draws0 = \<lparr>choice_draw = 0, normal_rint = 0, randint_draw = 0, idx_sample = []\<rparr>"

text \<open>
  The pair dataset over \<open>pair_table\<close> after one sampled pair: both records wait for pair 0,
  whose positions are \<open>[4]\<close>.
\<close>

definition sampled_ds :: dataset_pairs where
  "sampled_ds =
     \<lparr>df_mutations = pair_table, occurrence = (\<lambda>i. if i = 0 \<or> i = 1 then 1 else 0),
      tokenizer = None, ds_settings = single_window,
      dict_sampled = [0 \<mapsto> [0], 1 \<mapsto> [0]],
      df_pairs = [\<lparr>id_1 = 0, id_2 = 1, i_batch_col = 0, diff_tm = - 5, sub_group_col = Some 0,
                   diff_locations_col = [4]\<rparr>]\<rparr>"

text \<open>An item of one window of width \<open>w\<close>, as the tokenised branches build it.\<close>

definition window_item :: "int \<Rightarrow> nat \<Rightarrow> dict" where
  "window_item i w =
     [(''input_ids'', Tensor [1, w] (replicate w 1)),
      (''attention_mask'', Tensor [1, w] (replicate w 1)),
      (''position_ids'', Tensor [1, w] (replicate w 0)),
      (''pH'', Tensor [] [7]), (''id'', PyInt i), (''pair_id'', PyInt 0)]"

text \<open>
  Settings with a maximal length of 4 and no truncate mode, and the single-sequence
  dataset over \<open>pair_table\<close> without a tokenizer.
\<close>

definition unset_mode :: settings where
  "unset_mode = \<lparr>max_length = Some 4, truncate_mode = None, overlap = 0, sample_splits = None\<rparr>"

definition single_ds :: "settings \<Rightarrow> dataset" where
  "single_ds st = \<lparr>sd_df = pair_table, sd_tokenizer = None, sd_settings = st\<rparr>"

text \<open>
  Helpers for the pre-filter of group_mutations, whose own helper is not in the source
  file. The statements below hold for every helper; the evaluations use these three: one
  that keeps every candidate at a positive threshold, and two estimates from the letter
  counts, the summed absolute differences of the counts and half of that sum.
\<close>

definition keep_all :: "count_row \<Rightarrow> count_row \<Rightarrow> rat" where
  "keep_all prot sub = 0"

definition count_difference :: "nat list \<Rightarrow> nat list \<Rightarrow> nat" where
  "count_difference cs ds = nat (\<Sum>(a, b)\<leftarrow>zip cs ds. \<bar>int a - int b\<bar>)"

definition count_difference_distance :: "count_row \<Rightarrow> count_row \<Rightarrow> rat" where
  "count_difference_distance = count_estimate_helper (\<lambda>cs ds. of_nat (count_difference cs ds))"

definition half_count_distance :: "count_row \<Rightarrow> count_row \<Rightarrow> rat" where
  "half_count_distance = count_estimate_helper (\<lambda>cs ds. of_nat (count_difference cs ds div 2))"

text \<open>
  A table without chains: two groups of two sequences and a sequence that is close to no
  other.
\<close>

definition two_groups_table :: "string list" where
  "two_groups_table = [''AAAAA'', ''AAAAB'', ''DDDDDD'', ''DDDDDE'', ''GGG'']"

text \<open>
  A group of four records whose middle tm values are the floats nearest to 50.1 and 55.7.
  Their sum is no float; \<open>tie_rounding\<close> maps it to the float that the addition returns
  and leaves every other number as it is (the halved sum and the four differences from it
  are floats).
\<close>

definition tie_group :: "protein list" where
  "tie_group =
     map (\<lambda>(k, t). \<lparr>seq_id = k, protein_sequence = ''AAAAA'', pH = 7, tm = t, sub_group = Some 0,
                     sub_locations = None, seq_len = 5\<rparr>)
       [(20, 48), (21, 7050948166601933 / 140737488355328),
        (22, 3919539050695885 / 70368744177664), (23, 60)]"

definition tie_rounding :: "rat \<Rightarrow> rat" where
  "tie_rounding x =
     (if x = 14890026267993703 / 140737488355328 then 1861253283499213 / 17592186044416 else x)"

section \<open>Properties of the mutation grouping\<close>

subsection \<open>Counting differences\<close>

lemma n_diff_Cons:
  "n_diff (x # a) (y # b) (Suc n) = (if x \<noteq> y then 1 else 0) + n_diff a b n"
proof -
  have "[0..<Suc n] = 0 # map Suc [0..<n]"
    by (simp add: upt_conv_Cons map_Suc_upt del: upt_Suc)
  then show ?thesis
    by (simp add: n_diff_def filter_map o_def del: upt_Suc)
qed

lemma n_diff_sym: "n_diff a b n = n_diff b a n"
  by (simp add: n_diff_def neq_commute)

lemma n_diff_le: "n_diff a b n \<le> n"
  unfolding n_diff_def using length_filter_le [of _ "[0..<n]"] by simp

lemma abs_count_step:
  fixes f g :: int
  shows "\<bar>(f + (if a = x then 1 else 0)) - (g + (if a = y then 1 else 0))\<bar>
           \<le> \<bar>f - g\<bar> + (if x \<noteq> y \<and> a = x then 1 else 0) + (if x \<noteq> y \<and> a = y then 1 else 0)"
  by auto

lemma sum_list_indicator:
  "distinct L \<Longrightarrow> (\<Sum>a\<leftarrow>L. (if a = x then 1 else 0 :: int)) = (if x \<in> set L then 1 else 0)"
  by (induction L) auto

lemma sum_list_indicator_distinct:
  "distinct L \<Longrightarrow> (\<Sum>a\<leftarrow>L. (if P \<and> a = x then 1 else 0 :: int)) \<le> (if P then 1 else 0)"
  by (cases P) (simp_all add: sum_list_indicator)

lemma count_diff_le:
  assumes "length s = length t" and "distinct L"
  shows "(\<Sum>a\<leftarrow>L. \<bar>int (count_list s a) - int (count_list t a)\<bar>) \<le> 2 * int (n_diff s t (length s))"
  using assms(1)
proof (induction s t rule: list_induct2)
  case Nil
  then show ?case by (simp add: n_diff_def)
next
  case (Cons x s y t)
  have "(\<Sum>a\<leftarrow>L. \<bar>int (count_list (x # s) a) - int (count_list (y # t) a)\<bar>)
        \<le> (\<Sum>a\<leftarrow>L. \<bar>int (count_list s a) - int (count_list t a)\<bar>
              + (if x \<noteq> y \<and> a = x then 1 else 0) + (if x \<noteq> y \<and> a = y then 1 else 0))"
    by (rule sum_list_mono) auto
  also have "\<dots> = (\<Sum>a\<leftarrow>L. \<bar>int (count_list s a) - int (count_list t a)\<bar>)
              + (\<Sum>a\<leftarrow>L. (if x \<noteq> y \<and> a = x then 1 else 0))
              + (\<Sum>a\<leftarrow>L. (if x \<noteq> y \<and> a = y then 1 else 0))"
    by (simp add: sum_list_addf)
  also have "\<dots> \<le> 2 * int (n_diff s t (length s)) + (if x \<noteq> y then 1 else 0) + (if x \<noteq> y then 1 else 0)"
    using Cons.IH sum_list_indicator_distinct [OF assms(2), of "x \<noteq> y" x]
      sum_list_indicator_distinct [OF assms(2), of "x \<noteq> y" y]
    by linarith
  also have "\<dots> = 2 * int (n_diff (x # s) (y # t) (length (x # s)))"
    by (simp add: n_diff_Cons)
  finally show ?case .
qed

lemma distinct_AA_letters: "distinct AA_letters"
  by (simp add: AA_letters_def)

lemma sum_count_list_distinct:
  "distinct L \<Longrightarrow> (\<Sum>a\<leftarrow>L. count_list s a) = length (filter (\<lambda>c. c \<in> set L) s)"
proof (induction s)
  case Nil
  then show ?case by simp
next
  case (Cons x s)
  have ind: "(\<Sum>a\<leftarrow>L. (if x = a then 1 else 0 :: nat)) = (if x \<in> set L then 1 else 0)"
    using Cons.prems by (induction L) auto
  have "map (count_list (x # s)) L = map (\<lambda>a. count_list s a + (if x = a then 1 else 0)) L"
    by simp
  then have "(\<Sum>a\<leftarrow>L. count_list (x # s) a) = (\<Sum>a\<leftarrow>L. count_list s a) + (\<Sum>a\<leftarrow>L. (if x = a then 1 else 0))"
    by (simp only: sum_list_addf)
  then show ?case using Cons ind by simp
qed

lemma len_df_count_row: "len (df_count_row s) = length (filter (\<lambda>c. c \<in> set AA_letters) s)"
  by (simp add: df_count_row_def Let_def sum_count_list_distinct distinct_AA_letters)

lemma len_df_count_row_le: "len (df_count_row s) \<le> length s"
  by (simp add: len_df_count_row)

lemma len_df_count_row_AA: "set s \<subseteq> set AA_letters \<Longrightarrow> len (df_count_row s) = length s"
  by (simp add: len_df_count_row subset_iff)


lemma count_difference_le:
  assumes "length s = length t"
  shows "count_difference (aa_counts (df_count_row s)) (aa_counts (df_count_row t)) \<le> 2 * n_diff s t (length s)"
proof -
  have "(\<Sum>(a, b)\<leftarrow>zip (aa_counts (df_count_row s)) (aa_counts (df_count_row t)). \<bar>int a - int b\<bar>)
        = (\<Sum>a\<leftarrow>AA_letters. \<bar>int (count_list s a) - int (count_list t a)\<bar>)"
    by (simp add: df_count_row_def Let_def zip_map_map zip_same_conv_map o_def)
  also have "\<dots> \<le> 2 * int (n_diff s t (length s))"
    by (rule count_diff_le [OF assms distinct_AA_letters])
  finally show ?thesis
    unfolding count_difference_def by linarith
qed

lemma half_count_distance_le:
  assumes "set s \<subseteq> set AA_letters" and "length s = length t"
  shows "half_count_distance (df_count_row s) (df_count_row t)
           \<le> of_nat (n_diff s t (length s)) / of_nat (length s)"
proof -
  have "count_difference (aa_counts (df_count_row s)) (aa_counts (df_count_row t)) div 2 \<le> n_diff s t (length s)"
    using count_difference_le [OF assms(2)] by linarith
  then show ?thesis
    using len_df_count_row_AA [OF assms(1)]
    by (simp add: half_count_distance_def count_estimate_helper_def divide_right_mono)
qed

lemma sequence_df_count_row: "sequence (df_count_row s) = s"
  by (simp add: df_count_row_def Let_def)

lemma two_records:
  "group_mutations cd [s, t] max_rate =
     (if len (df_count_row s) = len (df_count_row t)
         \<and> cd (df_count_row s) (df_count_row t) < max_rate
         \<and> len (df_count_row s) \<noteq> 0
         \<and> of_nat (n_diff s t (len (df_count_row s))) / of_nat (len (df_count_row s)) < max_rate
      then [Some 0, Some 0] else [None, None])"
  by (auto simp: group_mutations_def process_ref_def pre_filter_def compare_sub_def Let_def
        next_group_id_def s_groups_max_def List.map_filter_simps upt_conv_Cons n_diff_sym [of t s]
        sequence_df_count_row)


lemma mutants_sym: "mutants max_rate s t \<Longrightarrow> mutants max_rate t s"
  by (auto simp: mutants_def substitution_rate_def n_diff_sym [of t s])

lemma half_count_distance_keeps_mutants:
  assumes "set s \<subseteq> set AA_letters" and "mutants max_rate s t"
  shows "half_count_distance (df_count_row s) (df_count_row t) < max_rate"
proof -
  have l: "length s = length t" and r: "of_nat (n_diff s t (length s)) / of_nat (length s) < max_rate"
    using assms(2) by (auto simp: mutants_def substitution_rate_def)
  from half_count_distance_le [OF assms(1) l] r show ?thesis by (rule le_less_trans)
qed

subsection \<open>One pass of the loop over the candidates\<close>

lemma fold_update_nth:
  "i < length gs \<Longrightarrow> fold (\<lambda>j gs. gs[j := v]) ys gs ! i = (if i \<in> set ys then v else gs ! i)"
  by (induction ys arbitrary: gs) (auto simp: nth_list_update)

lemma fold_update_length: "length (fold (\<lambda>j gs. gs[j := v]) ys gs) = length gs"
  by (induction ys arbitrary: gs) auto

lemma compare_sub_cases:
  assumes "\<And>j. ok j \<longleftrightarrow> len prot \<noteq> 0 \<and> of_nat (n_diff (sequence prot) (sequence (df_count ! j)) (len prot)) / of_nat (len prot) < max_rate"
  shows "compare_sub max_rate df_count prot x st =
     (if ok x
      then (let g = (if x \<in> set (idx_out st) then s_groups st ! x else group_id st)
            in st\<lparr>s_groups := (s_groups st)[x := g], group_id := g,
                  idx_out := idx_out st @ [x], n_mutations := n_mutations st + 1\<rparr>)
      else st)"
  unfolding assms by (simp add: compare_sub_def Let_def)

lemma fold_compare_sub:
  assumes ok: "\<And>j. ok j \<longleftrightarrow> len prot \<noteq> 0 \<and> of_nat (n_diff (sequence prot) (sequence (df_count ! j)) (len prot)) / of_nat (len prot) < max_rate"
    and "distinct xs"
    and "\<forall>j\<in>set xs. ok j \<longrightarrow> j \<notin> set (idx_out st)"
  shows "fold (compare_sub max_rate df_count prot) xs st
     = st\<lparr>s_groups := fold (\<lambda>j gs. gs[j := group_id st]) (filter ok xs) (s_groups st),
           idx_out := idx_out st @ filter ok xs,
           n_mutations := n_mutations st + length (filter ok xs)\<rparr>"
  using assms(2,3)
proof (induction xs arbitrary: st)
  case Nil
  then show ?case by simp
next
  case (Cons x xs)
  note cs = compare_sub_cases [of ok prot df_count max_rate, OF ok]
  show ?case
  proof (cases "ok x")
    case True
    then have new: "x \<notin> set (idx_out st)" using Cons.prems(2) by simp
    let ?st1 = "st\<lparr>s_groups := (s_groups st)[x := group_id st], group_id := group_id st,
                    idx_out := idx_out st @ [x], n_mutations := n_mutations st + 1\<rparr>"
    have step: "compare_sub max_rate df_count prot x st = ?st1"
      using True new by (simp add: cs Let_def)
    have pre: "\<forall>j\<in>set xs. ok j \<longrightarrow> j \<notin> set (idx_out ?st1)"
      using Cons.prems by auto
    have d: "distinct xs" using Cons.prems(1) by simp
    show ?thesis
      using Cons.IH [OF d pre] True by (simp add: step)
  next
    case False
    then have step: "compare_sub max_rate df_count prot x st = st"
      by (simp add: cs)
    have pre: "\<forall>j\<in>set xs. ok j \<longrightarrow> j \<notin> set (idx_out st)"
      using Cons.prems by auto
    have d: "distinct xs" using Cons.prems(1) by simp
    show ?thesis
      using Cons.IH [OF d pre] False by (simp add: step)
  qed
qed

lemma fold_compare_sub_filter:
  assumes "\<forall>j\<in>set xs. len prot \<noteq> 0 \<and> of_nat (n_diff (sequence prot) (sequence (df_count ! j)) (len prot)) / of_nat (len prot) < max_rate
             \<longrightarrow> P j"
  shows "fold (compare_sub max_rate df_count prot) (filter P xs) st = fold (compare_sub max_rate df_count prot) xs st"
  using assms
proof (induction xs arbitrary: st)
  case Nil
  then show ?case by simp
next
  case (Cons x xs)
  have IH: "fold (compare_sub max_rate df_count prot) (filter P xs) st'
              = fold (compare_sub max_rate df_count prot) xs st'" for st'
    using Cons by simp
  show ?case
  proof (cases "P x")
    case True
    then show ?thesis by (simp add: IH)
  next
    case False
    then have "compare_sub max_rate df_count prot x st = st"
      using Cons.prems by (auto simp: compare_sub_def Let_def)
    then show ?thesis using False by (simp add: IH)
  qed
qed

lemma fold_compare_sub_other:
  assumes "j \<notin> set xs"
  shows "s_groups (fold (compare_sub max_rate df_count prot) xs st) ! j = s_groups st ! j
         \<and> (j \<in> set (idx_out (fold (compare_sub max_rate df_count prot) xs st)) \<longleftrightarrow> j \<in> set (idx_out st))"
  using assms
proof (induction xs arbitrary: st)
  case Nil
  then show ?case by simp
next
  case (Cons x xs)
  have x: "x \<noteq> j" and rest: "j \<notin> set xs" using Cons.prems by auto
  have step: "s_groups (compare_sub max_rate df_count prot x st) ! j = s_groups st ! j
              \<and> (j \<in> set (idx_out (compare_sub max_rate df_count prot x st)) \<longleftrightarrow> j \<in> set (idx_out st))"
    using x by (auto simp: compare_sub_def Let_def)
  show ?case using Cons.IH [OF rest, of "compare_sub max_rate df_count prot x st"] step by simp
qed

subsection \<open>One pass of the loop over the references\<close>

lemma accepted_candidates:
  assumes "k < length df_count"
  shows "filter (\<lambda>j. len (df_count ! k) \<noteq> 0 \<and> of_nat (n_diff (sequence (df_count ! k)) (sequence (df_count ! j)) (len (df_count ! k))) / of_nat (len (df_count ! k)) < max_rate)
           (pre_filter cd max_rate df_count (df_count ! k)
              (filter (\<lambda>j. j \<noteq> k \<and> len (df_count ! j) = len (df_count ! k)) [0..<length df_count]))
         = filter (accepts cd max_rate df_count k) [0..<length df_count]"
  using assms by (auto simp: pre_filter_def accepts_def intro!: filter_cong)

lemma process_ref_new:
  assumes k: "k < length df_count" and new: "k \<notin> set (idx_out st)"
    and fresh: "\<forall>j. accepts cd max_rate df_count k j \<longrightarrow> j \<notin> set (idx_out st)"
  shows "idx_out (process_ref cd max_rate df_count k st)
           = idx_out st @ filter (accepts cd max_rate df_count k) [0..<length df_count] @ [k]"
    and "s_groups (process_ref cd max_rate df_count k st)
           = (if filter (accepts cd max_rate df_count k) [0..<length df_count] = [] then s_groups st
              else (fold (\<lambda>j gs. gs[j := group_id st]) (filter (accepts cd max_rate df_count k) [0..<length df_count]) (s_groups st))
                     [k := group_id st])"
    and "group_id (process_ref cd max_rate df_count k st)
           = (if filter (accepts cd max_rate df_count k) [0..<length df_count] = [] then group_id st
              else next_group_id (group_id st) (s_groups (process_ref cd max_rate df_count k st)))"
proof -
  let ?prot = "df_count ! k"
  let ?sub = "filter (\<lambda>j. j \<noteq> k \<and> len (df_count ! j) = len ?prot) [0..<length df_count]"
  let ?xs = "pre_filter cd max_rate df_count ?prot ?sub"
  let ?ok = "\<lambda>j. len ?prot \<noteq> 0 \<and> of_nat (n_diff (sequence ?prot) (sequence (df_count ! j)) (len ?prot)) / of_nat (len ?prot) < max_rate"
  let ?A = "filter (accepts cd max_rate df_count k) [0..<length df_count]"
  have A: "filter ?ok ?xs = ?A" by (rule accepted_candidates [OF k])
  have d: "distinct ?xs" by (simp add: pre_filter_def)
  have pre: "\<forall>j\<in>set ?xs. ?ok j \<longrightarrow> j \<notin> set (idx_out (st\<lparr>n_mutations := 0\<rparr>))"
  proof (intro ballI impI)
    fix j assume "j \<in> set ?xs" and "?ok j"
    then have "j \<in> set (filter ?ok ?xs)" by simp
    then have "accepts cd max_rate df_count k j" unfolding A by simp
    then show "j \<notin> set (idx_out (st\<lparr>n_mutations := 0\<rparr>))" using fresh by simp
  qed
  note f = fold_compare_sub [of ?ok ?prot df_count max_rate, OF refl d pre, unfolded A]
  have empty: "?sub = [] \<Longrightarrow> ?A = []"
    by (auto simp: filter_empty_conv accepts_def)
  show "idx_out (process_ref cd max_rate df_count k st) = idx_out st @ ?A @ [k]"
    using new empty by (simp add: process_ref_def Let_def f)
  show s: "s_groups (process_ref cd max_rate df_count k st)
           = (if ?A = [] then s_groups st
              else (fold (\<lambda>j gs. gs[j := group_id st]) ?A (s_groups st))[k := group_id st])"
    using new empty by (simp add: process_ref_def Let_def f)
  show "group_id (process_ref cd max_rate df_count k st)
           = (if ?A = [] then group_id st
              else next_group_id (group_id st) (s_groups (process_ref cd max_rate df_count k st)))"
    unfolding s using new empty by (simp add: process_ref_def Let_def f)
qed

lemma s_groups_max_eq:
  assumes "k < length gs" and "gs ! k = Some c"
    and "\<forall>j<length gs. \<forall>g. gs ! j = Some g \<longrightarrow> g \<le> c"
  shows "s_groups_max gs = Some c"
proof -
  let ?ys = "List.map_filter (\<lambda>g. g) gs"
  have set_ys: "set ?ys = {g. Some g \<in> set gs}"
    by (induction gs) (auto simp: List.map_filter_simps split: option.splits)
  have "Some c \<in> set gs" using assms(1,2) by (metis nth_mem)
  then have cin: "c \<in> set ?ys" using set_ys by simp
  then obtain y ys where ys: "?ys = y # ys" by (cases ?ys) auto
  have le: "\<forall>g\<in>set ?ys. g \<le> c"
    using assms(3) set_ys by (auto simp: in_set_conv_nth)
  have "fold max ys y = Max (set (y # ys))" by (rule Max.set_eq_fold [symmetric])
  also have "\<dots> = c" using cin le unfolding ys by (intro Max_eqI) auto
  finally show ?thesis by (simp add: s_groups_max_def ys)
qed


lemma process_ref_discards:
  assumes "k < length df_count" and "j \<noteq> k" and "max_rate \<le> cd (df_count ! k) (df_count ! j)"
  shows "s_groups (process_ref cd max_rate df_count k st) ! j = s_groups st ! j
         \<and> (j \<in> set (idx_out (process_ref cd max_rate df_count k st)) \<longleftrightarrow> j \<in> set (idx_out st))"
proof -
  let ?prot = "df_count ! k"
  let ?sub = "filter (\<lambda>j. j \<noteq> k \<and> len (df_count ! j) = len ?prot) [0..<length df_count]"
  let ?xs = "pre_filter cd max_rate df_count ?prot ?sub"
  have "j \<notin> set ?xs" using assms(3) by (simp add: pre_filter_def)
  note f = fold_compare_sub_other [OF this, of max_rate df_count ?prot "st\<lparr>n_mutations := 0\<rparr>"]
  show ?thesis
    using assms(2) f by (simp add: process_ref_def Let_def)
qed

lemma process_ref_helper_irrelevant:
  assumes "0 < max_rate"
    and "\<forall>j<length df_count. len (df_count ! j) = len (df_count ! k) \<and> len (df_count ! k) \<noteq> 0
           \<and> of_nat (n_diff (sequence (df_count ! k)) (sequence (df_count ! j)) (len (df_count ! k))) / of_nat (len (df_count ! k)) < max_rate
           \<longrightarrow> cd (df_count ! k) (df_count ! j) < max_rate"
  shows "process_ref cd max_rate df_count k st = process_ref keep_all max_rate df_count k st"
proof -
  let ?prot = "df_count ! k"
  let ?sub = "filter (\<lambda>j. j \<noteq> k \<and> len (df_count ! j) = len ?prot) [0..<length df_count]"
  have all: "pre_filter keep_all max_rate df_count ?prot ?sub = ?sub"
    using assms(1) by (simp add: pre_filter_def keep_all_def)
  have "fold (compare_sub max_rate df_count ?prot) (pre_filter cd max_rate df_count ?prot ?sub) st'
          = fold (compare_sub max_rate df_count ?prot) ?sub st'" for st'
    unfolding pre_filter_def
    by (rule fold_compare_sub_filter) (use assms(2) in auto)
  then show ?thesis
    by (simp add: process_ref_def Let_def all)
qed

lemma pre_filter_irrelevant:
  assumes "0 < max_rate"
    and "\<forall>s\<in>set df. set s \<subseteq> set AA_letters"
    and "\<forall>s\<in>set df. \<forall>t\<in>set df. mutants max_rate s t \<longrightarrow> cd (df_count_row s) (df_count_row t) < max_rate"
  shows "group_mutations cd df max_rate = group_mutations keep_all df max_rate"
proof -
  let ?rows = "map df_count_row df"
  have "process_ref cd max_rate ?rows k = process_ref keep_all max_rate ?rows k" if k: "k < length df" for k
  proof (rule ext, rule process_ref_helper_irrelevant [OF assms(1)], intro allI impI)
    fix j
    assume j: "j < length ?rows"
      and c: "len (?rows ! j) = len (?rows ! k) \<and> len (?rows ! k) \<noteq> 0
           \<and> of_nat (n_diff (sequence (?rows ! k)) (sequence (?rows ! j)) (len (?rows ! k))) / of_nat (len (?rows ! k)) < max_rate"
    have kin: "df ! k \<in> set df" and jin: "df ! j \<in> set df" using k j by simp_all
    have lk: "len (df_count_row (df ! k)) = length (df ! k)" and lj: "len (df_count_row (df ! j)) = length (df ! j)"
      using assms(2) kin jin by (simp_all add: len_df_count_row_AA)
    have "mutants max_rate (df ! k) (df ! j)"
      using c k j by (simp add: mutants_def substitution_rate_def lk lj sequence_df_count_row)
    then show "cd (?rows ! k) (?rows ! j) < max_rate"
      using assms(3) kin jin k j by simp
  qed
  then have "fold (process_ref cd max_rate ?rows) [0..<length ?rows] st
               = fold (process_ref keep_all max_rate ?rows) [0..<length ?rows] st" for st
    by (intro fold_cong) simp_all
  then show ?thesis by (simp add: group_mutations_def Let_def)
qed

subsection \<open>Tables without chains\<close>

text \<open>
  On a table whose relation \<open>accepts\<close> is symmetric and transitive no reference accepts a
  candidate that is already processed, so the late join of source lines 94 and 95 does not
  occur, every group receives the value of the counter, and the counter is then advanced
  past all ids in use.
\<close>

lemma gm_inv_step:
  assumes sym: "\<And>i j. accepts cd max_rate df_count i j \<Longrightarrow> accepts cd max_rate df_count j i"
    and trans: "\<And>i j l. accepts cd max_rate df_count i j \<Longrightarrow> accepts cd max_rate df_count j l \<Longrightarrow> i \<noteq> l
                  \<Longrightarrow> accepts cd max_rate df_count i l"
    and inv: "gm_inv cd max_rate df_count k st" and k: "k < length df_count"
  shows "gm_inv cd max_rate df_count (Suc k) (process_ref cd max_rate df_count k st)"
proof -
  let ?acc = "accepts cd max_rate df_count"
  let ?n = "length df_count"
  note I = inv [unfolded gm_inv_def]
  note len = I [THEN conjunct1]
  note ex0 = I [THEN conjunct2, THEN conjunct1]
  note io0 = I [THEN conjunct2, THEN conjunct2, THEN conjunct1]
  note some0 = I [THEN conjunct2, THEN conjunct2, THEN conjunct2, THEN conjunct1]
  note eq0 = I [THEN conjunct2, THEN conjunct2, THEN conjunct2, THEN conjunct2]
  from ex0 obtain c where gid: "group_id st = Some c"
    and below0: "\<forall>j<?n. \<forall>g. s_groups st ! j = Some g \<longrightarrow> g < c"
    by (elim exE conjE)
  note below = below0 [rule_format]
  note io = io0 [rule_format]
  note some = some0 [rule_format]
  note eq = eq0 [rule_format]
  have bounds: "\<And>i j. ?acc i j \<Longrightarrow> i < ?n \<and> j < ?n \<and> i \<noteq> j"
    by (simp add: accepts_def)
  show ?thesis
  proof (cases "k \<in> set (idx_out st)")
    case True
    then have same: "process_ref cd max_rate df_count k st = st"
      by (simp add: process_ref_def)
    from True io [of k] obtain i0 where i0: "i0 < k" "?acc i0 k" by auto
    have io': "\<And>j. j \<in> set (idx_out st) \<longleftrightarrow> j < ?n \<and> (j < Suc k \<or> (\<exists>i<Suc k. ?acc i j))"
    proof -
      fix j
      show "j \<in> set (idx_out st) \<longleftrightarrow> j < ?n \<and> (j < Suc k \<or> (\<exists>i<Suc k. ?acc i j))"
      proof
        assume "j \<in> set (idx_out st)"
        then show "j < ?n \<and> (j < Suc k \<or> (\<exists>i<Suc k. ?acc i j))"
          using io [of j] less_Suc_eq by auto
      next
        assume r: "j < ?n \<and> (j < Suc k \<or> (\<exists>i<Suc k. ?acc i j))"
        show "j \<in> set (idx_out st)"
        proof (cases "j < k \<or> (\<exists>i<k. ?acc i j)")
          case True
          then show ?thesis using io [of j] r by blast
        next
          case False
          with r have "j = k \<or> ?acc k j" using less_Suc_eq by auto
          then show ?thesis
          proof
            assume "j = k" then show ?thesis using \<open>k \<in> set (idx_out st)\<close> by simp
          next
            assume a: "?acc k j"
            show ?thesis
            proof (cases "i0 = j")
              case True
              then show ?thesis using io [of j] i0(1) r by blast
            next
              case False
              then have "?acc i0 j" using trans [OF i0(2) a] by simp
              then show ?thesis using io [of j] i0(1) r by blast
            qed
          qed
        qed
      qed
    qed
    show ?thesis
      unfolding same gm_inv_def
      using len gid below io' some eq by blast
  next
    case False
    have nopred: "\<And>i. i < k \<Longrightarrow> \<not> ?acc i k"
      using False io [of k] k by blast
    have fresh: "\<forall>j. ?acc k j \<longrightarrow> j \<notin> set (idx_out st)"
    proof (intro allI impI notI)
      fix j assume a: "?acc k j" and "j \<in> set (idx_out st)"
      then consider "j < k" | i where "i < k" "?acc i j" using io [of j] by blast
      then show False
      proof cases
        case 1
        then show False using nopred [of j] sym [OF a] by simp
      next
        case 2
        have "i \<noteq> k" using 2(1) by simp
        then have "?acc i k" using trans [OF 2(2) sym [OF a]] by simp
        then show False using nopred [OF 2(1)] by simp
      qed
    qed
    let ?A = "filter (?acc k) [0..<?n]"
    let ?st' = "process_ref cd max_rate df_count k st"
    note pr = process_ref_new [OF k False fresh]
    have setA: "\<And>j. j \<in> set ?A \<longleftrightarrow> ?acc k j" using bounds by auto
    have Aempty: "?A = [] \<longleftrightarrow> \<not> (\<exists>j. ?acc k j)"
      using setA by (metis empty_iff empty_set last_in_set)
    have io1: "\<And>j. j \<in> set (idx_out ?st') \<longleftrightarrow> j \<in> set (idx_out st) \<or> j = k \<or> ?acc k j"
      unfolding pr(1) using setA by auto
    have len': "length (s_groups ?st') = ?n"
      unfolding pr(2) using len by (simp add: fold_update_length)
    have nth': "\<And>j. j < ?n \<Longrightarrow> s_groups ?st' ! j
                   = (if (\<exists>i. ?acc k i) \<and> (j = k \<or> ?acc k j) then Some c else s_groups st ! j)"
    proof -
      fix j assume j: "j < ?n"
      have jl: "j < length (s_groups st)" using j len by simp
      have f: "fold (\<lambda>j gs. gs[j := Some c]) ?A (s_groups st) ! j
                 = (if ?acc k j then Some c else s_groups st ! j)"
        using fold_update_nth [OF jl, of "Some c" ?A] setA [of j] by simp
      show "s_groups ?st' ! j
              = (if (\<exists>i. ?acc k i) \<and> (j = k \<or> ?acc k j) then Some c else s_groups st ! j)"
      proof (cases "?A = []")
        case True
        then show ?thesis using pr(2) Aempty by simp
      next
        case False
        then have "s_groups ?st' ! j
                     = (fold (\<lambda>j gs. gs[j := Some c]) ?A (s_groups st))[k := Some c] ! j"
          using pr(2) gid by simp
        also have "\<dots> = (if j = k \<or> ?acc k j then Some c else s_groups st ! j)"
          using jl f k len by (simp add: nth_list_update fold_update_length)
        finally show ?thesis using False Aempty by simp
      qed
    qed
    have kNone: "s_groups st ! k = None" using some [OF k] False by blast
    have accNone: "\<And>j. ?acc k j \<Longrightarrow> s_groups st ! j = None"
      using some fresh bounds by blast
    have cl1: "\<And>j l. j = k \<or> ?acc k j \<Longrightarrow> ?acc j l \<Longrightarrow> l = k \<or> ?acc k l"
      using trans by blast
    have cl2: "\<And>j l. j = k \<or> ?acc k j \<Longrightarrow> l = k \<or> ?acc k l \<Longrightarrow> j \<noteq> l \<Longrightarrow> ?acc j l"
      using trans sym by blast
    have cl3: "\<And>j l. l = k \<or> ?acc k l \<Longrightarrow> ?acc j l \<Longrightarrow> j = k \<or> ?acc k j"
      using cl1 sym by blast
    have io': "\<And>j. j \<in> set (idx_out ?st') \<longleftrightarrow> j < ?n \<and> (j < Suc k \<or> (\<exists>i<Suc k. ?acc i j))"
    proof -
      fix j
      show "j \<in> set (idx_out ?st') \<longleftrightarrow> j < ?n \<and> (j < Suc k \<or> (\<exists>i<Suc k. ?acc i j))"
        unfolding io1 io [of j] using k bounds less_Suc_eq by auto
    qed
    have some': "\<And>j. j < ?n \<Longrightarrow> s_groups ?st' ! j \<noteq> None \<longleftrightarrow> j \<in> set (idx_out ?st') \<and> (\<exists>i. ?acc j i)"
    proof -
      fix j assume j: "j < ?n"
      show "s_groups ?st' ! j \<noteq> None \<longleftrightarrow> j \<in> set (idx_out ?st') \<and> (\<exists>i. ?acc j i)"
      proof (cases "j = k \<or> ?acc k j")
        case True
        have "(\<exists>i. ?acc k i) \<longleftrightarrow> (\<exists>i. ?acc j i)"
          using True sym cl2 by (metis)
        moreover have "s_groups st ! j = None" using True kNone accNone by blast
        ultimately show ?thesis unfolding nth' [OF j] io1 using True by auto
      next
        case False
        then show ?thesis unfolding nth' [OF j] io1 using some [OF j] by simp
      qed
    qed
    have below': "\<And>j g. j < ?n \<Longrightarrow> s_groups ?st' ! j = Some g \<Longrightarrow> g \<le> c"
      using below nth' by (metis less_imp_le_nat option.inject order_refl)
    have eq': "\<And>i j. i < ?n \<Longrightarrow> j < ?n \<Longrightarrow> i \<noteq> j \<Longrightarrow> s_groups ?st' ! i \<noteq> None
                \<Longrightarrow> (s_groups ?st' ! i = s_groups ?st' ! j \<longleftrightarrow> ?acc i j)"
    proof -
      fix i j assume i: "i < ?n" and j: "j < ?n" and ij: "i \<noteq> j" and si: "s_groups ?st' ! i \<noteq> None"
      have oldc: "\<And>l. l < ?n \<Longrightarrow> s_groups st ! l \<noteq> Some c" using below by blast
      show "s_groups ?st' ! i = s_groups ?st' ! j \<longleftrightarrow> ?acc i j"
      proof (cases "i = k \<or> ?acc k i")
        case Ci: True
        then have none_i: "s_groups st ! i = None" using kNone accNone by blast
        then have ex: "\<exists>l. ?acc k l" and vi: "s_groups ?st' ! i = Some c"
          using si Ci nth' [OF i] by (auto split: if_splits)
        show ?thesis
        proof (cases "j = k \<or> ?acc k j")
          case True
          then have "s_groups ?st' ! j = Some c" using ex nth' [OF j] by simp
          moreover have "?acc i j" using cl2 [OF Ci True ij] .
          ultimately show ?thesis using vi by simp
        next
          case False
          then have "s_groups ?st' ! j = s_groups st ! j" using nth' [OF j] by simp
          moreover have "\<not> ?acc i j" using cl1 [OF Ci] False by blast
          ultimately show ?thesis using vi oldc [OF j] by simp
        qed
      next
        case Ci: False
        then have vi: "s_groups ?st' ! i = s_groups st ! i" using nth' [OF i] by simp
        then have oi: "s_groups st ! i \<noteq> None" using si by simp
        show ?thesis
        proof (cases "j = k \<or> ?acc k j")
          case True
          then have nj: "s_groups st ! j = None" using kNone accNone by blast
          have "\<not> ?acc i j" using cl3 [OF True] Ci by blast
          moreover have "s_groups ?st' ! j \<noteq> s_groups st ! i"
            using nth' [OF j] nj oi oldc [OF i] by (auto split: if_splits)
          ultimately show ?thesis using vi by simp
        next
          case False
          then have "s_groups ?st' ! j = s_groups st ! j" using nth' [OF j] by simp
          then show ?thesis using vi eq [OF i j ij oi] by simp
        qed
      qed
    qed
    have gid': "\<exists>c'. group_id ?st' = Some c' \<and> (\<forall>j<?n. \<forall>g. s_groups ?st' ! j = Some g \<longrightarrow> g < c')"
    proof (cases "\<exists>i. ?acc k i")
      case True
      then have sk: "s_groups ?st' ! k = Some c" using nth' [OF k] by simp
      have "s_groups_max (s_groups ?st') = Some c"
        using s_groups_max_eq [of k "s_groups ?st'" c] k sk below' len' by simp
      then have "group_id ?st' = Some (Suc c)"
        using pr(3) True Aempty gid by (simp add: next_group_id_def)
      then show ?thesis using below' by (auto simp: less_Suc_eq_le)
    next
      case False
      then have "group_id ?st' = Some c" using pr(3) Aempty gid by simp
      moreover have "\<And>j. j < ?n \<Longrightarrow> s_groups ?st' ! j = s_groups st ! j"
        using nth' False by simp
      ultimately show ?thesis using below by auto
    qed
    show ?thesis
      unfolding gm_inv_def
      using len' gid' io' some' eq' by blast
  qed
qed


lemma gm_inv_init:
  "gm_inv cd max_rate df_count 0
     \<lparr>s_groups = replicate (length df_count) None, group_id = Some 0, idx_out = [], n_mutations = 0\<rparr>"
  by (simp add: gm_inv_def)

lemma gm_inv_fold:
  assumes sym: "\<And>i j. accepts cd max_rate df_count i j \<Longrightarrow> accepts cd max_rate df_count j i"
    and trans: "\<And>i j l. accepts cd max_rate df_count i j \<Longrightarrow> accepts cd max_rate df_count j l \<Longrightarrow> i \<noteq> l
                  \<Longrightarrow> accepts cd max_rate df_count i l"
  shows "k \<le> length df_count \<Longrightarrow>
     gm_inv cd max_rate df_count k
       (fold (process_ref cd max_rate df_count) [0..<k]
          \<lparr>s_groups = replicate (length df_count) None, group_id = Some 0, idx_out = [], n_mutations = 0\<rparr>)"
proof (induction k)
  case 0
  show ?case using gm_inv_init by simp
next
  case (Suc k)
  then have "gm_inv cd max_rate df_count k
       (fold (process_ref cd max_rate df_count) [0..<k]
          \<lparr>s_groups = replicate (length df_count) None, group_id = Some 0, idx_out = [], n_mutations = 0\<rparr>)"
    and k: "k < length df_count" by simp_all
  from gm_inv_step [of cd max_rate df_count, OF sym trans this]
  show ?case by simp
qed

lemma group_mutations_accepts:
  assumes sym: "\<forall>i j. accepts cd max_rate (map df_count_row df) i j \<longrightarrow> accepts cd max_rate (map df_count_row df) j i"
    and trans: "\<forall>i j l. accepts cd max_rate (map df_count_row df) i j \<and> accepts cd max_rate (map df_count_row df) j l
                  \<and> i \<noteq> l \<longrightarrow> accepts cd max_rate (map df_count_row df) i l"
    and "i < length df" and "j < length df" and "i \<noteq> j"
  shows "same_group (group_mutations cd df max_rate) i j \<longleftrightarrow> accepts cd max_rate (map df_count_row df) i j"
proof -
  let ?rows = "map df_count_row df"
  let ?st = "fold (process_ref cd max_rate ?rows) [0..<length ?rows]
          \<lparr>s_groups = replicate (length ?rows) None, group_id = Some 0, idx_out = [], n_mutations = 0\<rparr>"
  have "gm_inv cd max_rate ?rows (length ?rows) ?st"
  proof (rule gm_inv_fold)
    fix a b assume "accepts cd max_rate ?rows a b"
    then show "accepts cd max_rate ?rows b a" using sym by blast
  next
    fix a b l assume "accepts cd max_rate ?rows a b" "accepts cd max_rate ?rows b l" "a \<noteq> l"
    then show "accepts cd max_rate ?rows a l" using trans by blast
  qed simp
  note I = this [unfolded gm_inv_def]
  note io = I [THEN conjunct2, THEN conjunct2, THEN conjunct1, rule_format]
  note some = I [THEN conjunct2, THEN conjunct2, THEN conjunct2, THEN conjunct1, rule_format]
  note eq = I [THEN conjunct2, THEN conjunct2, THEN conjunct2, THEN conjunct2, rule_format]
  have gs: "group_mutations cd df max_rate = s_groups ?st"
    by (simp add: group_mutations_def Let_def)
  have i: "i < length ?rows" and j: "j < length ?rows" using assms(3,4) by simp_all
  show ?thesis
  proof
    assume "same_group (group_mutations cd df max_rate) i j"
    then have "s_groups ?st ! i \<noteq> None \<and> s_groups ?st ! i = s_groups ?st ! j"
      unfolding gs same_group_def .
    then show "accepts cd max_rate ?rows i j" using eq [OF i j assms(5)] by blast
  next
    assume a: "accepts cd max_rate ?rows i j"
    have "i \<in> set (idx_out ?st)" using io [of i] i by simp
    then have "s_groups ?st ! i \<noteq> None" using some [OF i] a by blast
    then have "s_groups ?st ! i \<noteq> None \<and> s_groups ?st ! i = s_groups ?st ! j"
      using eq [OF i j assms(5)] a by blast
    then show "same_group (group_mutations cd df max_rate) i j"
      unfolding gs same_group_def .
  qed
qed

lemma accepts_mutants:
  assumes alphabet: "\<forall>s\<in>set df. s \<noteq> [] \<and> set s \<subseteq> set AA_letters"
    and helper: "\<forall>s\<in>set df. \<forall>t\<in>set df. mutants max_rate s t \<longrightarrow> cd (df_count_row s) (df_count_row t) < max_rate"
  shows "accepts cd max_rate (map df_count_row df) i j
           \<longleftrightarrow> i < length df \<and> j < length df \<and> i \<noteq> j \<and> mutants max_rate (df ! i) (df ! j)"
proof (cases "i < length df \<and> j < length df")
  case True
  then have i: "df ! i \<in> set df" and j: "df ! j \<in> set df" by simp_all
  have li: "len (df_count_row (df ! i)) = length (df ! i)" and lj: "len (df_count_row (df ! j)) = length (df ! j)"
    using alphabet i j by (simp_all add: len_df_count_row_AA)
  have ne: "length (df ! i) \<noteq> 0" using alphabet i by simp
  show ?thesis
    using True helper i j ne
    by (auto simp: accepts_def li lj mutants_def substitution_rate_def sequence_df_count_row)
next
  case False
  then show ?thesis by (auto simp: accepts_def)
qed

lemma same_group_trans: "same_group gs i j \<Longrightarrow> same_group gs j k \<Longrightarrow> same_group gs i k"
  by (metis same_group_def)

text \<open>
  The hypothesis on chains cannot be dropped: an assignment of ids that satisfies the
  claimed equivalence for all pairs of a table exists only if the table has no chain.
\<close>

lemma equivalence_needs_no_chains:
  assumes "\<forall>i<length df. \<forall>j<length df. i \<noteq> j \<longrightarrow> (same_group gs i j \<longleftrightarrow> mutants max_rate (df ! i) (df ! j))"
    and "i < length df" "j < length df" "l < length df" "i \<noteq> j" "j \<noteq> l" "i \<noteq> l"
    and "mutants max_rate (df ! i) (df ! j)" "mutants max_rate (df ! j) (df ! l)"
  shows "mutants max_rate (df ! i) (df ! l)"
proof -
  have "same_group gs i j" "same_group gs j l" using assms by blast+
  then have "same_group gs i l" by (rule same_group_trans)
  then show ?thesis using assms by blast
qed

text \<open>
  Nor can the hypothesis on the alphabet: the length that group_mutations divides by counts
  the letters of the alphabet only, and only that many positions are compared. "JAB" and
  "JBA" differ in 2 of 3 positions and are grouped at 0.6, the first two positions
  differing in 1 of 2.
\<close>

lemma outside_alphabet_example:
  "same_group (group_mutations keep_all [''JAB'', ''JBA''] (3/5)) 0 1 \<and> \<not> mutants (3/5) ''JAB'' ''JBA''"
  by code_simp

text \<open>
  Claim C1, as amended. Let the table hold non-empty sequences over the amino-acid
  alphabet, let the helper of the pre-filter keep every candidate that differs from its
  reference at a rate below \<open>max_rate\<close>, and let the table have no chain: whenever \<open>s\<close>
  and \<open>t\<close>, and \<open>t\<close> and \<open>u\<close>, have equal length and differ at a rate below \<open>max_rate\<close>, so
  do \<open>s\<close> and \<open>u\<close>. Then group_mutations gives two records of the table the same group id
  if and only if their sequences have equal length and the fraction of positions at which
  they differ is strictly below \<open>max_rate\<close>.
\<close>

theorem group_mutations_without_chains:
  assumes "\<forall>s\<in>set df. s \<noteq> [] \<and> set s \<subseteq> set AA_letters"
    and "\<forall>s\<in>set df. \<forall>t\<in>set df. mutants max_rate s t \<longrightarrow> cd (df_count_row s) (df_count_row t) < max_rate"
    and "\<forall>s\<in>set df. \<forall>t\<in>set df. \<forall>u\<in>set df. mutants max_rate s t \<and> mutants max_rate t u \<longrightarrow> mutants max_rate s u"
    and "i < length df" and "j < length df" and "i \<noteq> j"
  shows "same_group (group_mutations cd df max_rate) i j \<longleftrightarrow> mutants max_rate (df ! i) (df ! j)"
proof -
  note am = accepts_mutants [OF assms(1,2)]
  have sym: "\<forall>i j. accepts cd max_rate (map df_count_row df) i j \<longrightarrow> accepts cd max_rate (map df_count_row df) j i"
    unfolding am using mutants_sym by blast
  have trans: "\<forall>i j l. accepts cd max_rate (map df_count_row df) i j \<and> accepts cd max_rate (map df_count_row df) j l
                  \<and> i \<noteq> l \<longrightarrow> accepts cd max_rate (map df_count_row df) i l"
    unfolding am using assms(3) by (meson nth_mem)
  have "same_group (group_mutations cd df max_rate) i j \<longleftrightarrow> accepts cd max_rate (map df_count_row df) i j"
    using sym trans assms(4-6) by (rule group_mutations_accepts)
  then show ?thesis using assms(4-6) by (simp add: am)
qed

text \<open>
  The theorem applied to \<open>two_groups_table\<close> at \<open>max_rate = 0.3\<close> with the helper that
  keeps every candidate: "AAAAA" and "AAAAB" are grouped, and so are "DDDDDE" and "DDDDDD";
  "AAAAB" and "DDDDDD" are not, and "GGG" is in no group. At \<open>max_rate = 0.1\<close> "AAAAA" and
  "AAAAB" are not grouped.
\<close>

theorem group_mutations_without_chains_witness:
  "same_group (group_mutations keep_all two_groups_table (3/10)) 0 1
   \<and> same_group (group_mutations keep_all two_groups_table (3/10)) 3 2
   \<and> \<not> same_group (group_mutations keep_all two_groups_table (3/10)) 1 2
   \<and> \<not> same_group (group_mutations keep_all two_groups_table (3/10)) 4 0
   \<and> \<not> same_group (group_mutations keep_all [''AAAAA'', ''AAAAB''] (1/10)) 0 1"
proof -
  have a: "\<forall>s\<in>set two_groups_table. s \<noteq> [] \<and> set s \<subseteq> set AA_letters"
    by code_simp
  have c: "\<forall>s\<in>set two_groups_table. \<forall>t\<in>set two_groups_table. \<forall>u\<in>set two_groups_table.
         mutants (3/10) s t \<and> mutants (3/10) t u \<longrightarrow> mutants (3/10) s u"
    by code_simp
  have h: "\<forall>s\<in>set df. \<forall>t\<in>set df. mutants r s t \<longrightarrow> keep_all (df_count_row s) (df_count_row t) < r" for df r
    by (auto simp: keep_all_def mutants_def substitution_rate_def intro: le_less_trans [rotated])
  have m: "mutants (3/10) (two_groups_table ! 0) (two_groups_table ! 1)"
    "mutants (3/10) (two_groups_table ! 3) (two_groups_table ! 2)"
    "\<not> mutants (3/10) (two_groups_table ! 1) (two_groups_table ! 2)"
    "\<not> mutants (3/10) (two_groups_table ! 4) (two_groups_table ! 0)"
    by code_simp+
  have l: "(0::nat) < length two_groups_table" "1 < length two_groups_table" "2 < length two_groups_table"
    "3 < length two_groups_table" "4 < length two_groups_table"
    by (simp_all add: two_groups_table_def)
  have a2: "\<forall>s\<in>set [''AAAAA'', ''AAAAB'']. s \<noteq> [] \<and> set s \<subseteq> set AA_letters"
    by code_simp
  have c2: "\<forall>s\<in>set [''AAAAA'', ''AAAAB'']. \<forall>t\<in>set [''AAAAA'', ''AAAAB'']. \<forall>u\<in>set [''AAAAA'', ''AAAAB''].
         mutants (1/10) s t \<and> mutants (1/10) t u \<longrightarrow> mutants (1/10) s u"
    by code_simp
  have m2: "\<not> mutants (1/10) ([''AAAAA'', ''AAAAB''] ! 0) ([''AAAAA'', ''AAAAB''] ! 1)"
    by code_simp
  have ne: "(0::nat) \<noteq> 1" "(3::nat) \<noteq> 2" "(1::nat) \<noteq> 2" "(4::nat) \<noteq> 0"
    by simp_all
  have l2: "(0::nat) < length [''AAAAA'', ''AAAAB'']" "(1::nat) < length [''AAAAA'', ''AAAAB'']"
    by simp_all
  have r1: "same_group (group_mutations keep_all two_groups_table (3/10)) 0 1"
    using group_mutations_without_chains [OF a h c l(1,2) ne(1)] m(1) by blast
  have r2: "same_group (group_mutations keep_all two_groups_table (3/10)) 3 2"
    using group_mutations_without_chains [OF a h c l(4,3) ne(2)] m(2) by blast
  have r3: "\<not> same_group (group_mutations keep_all two_groups_table (3/10)) 1 2"
    using group_mutations_without_chains [OF a h c l(2,3) ne(3)] m(3) by blast
  have r4: "\<not> same_group (group_mutations keep_all two_groups_table (3/10)) 4 0"
    using group_mutations_without_chains [OF a h c l(5,1) ne(4)] m(4) by blast
  have r5: "\<not> same_group (group_mutations keep_all [''AAAAA'', ''AAAAB''] (1/10)) 0 1"
    using group_mutations_without_chains [OF a2 h c2 l2 ne(1)] m2 by blast
  show ?thesis
    using r1 r2 r3 r4 r5 by blast
qed

text \<open>
  Claim C1 as stated fails on a table with a chain: "AAAAA", "AAAAC", "AAACC" with
  \<open>max_rate = 0.3\<close>. With the helper that keeps every candidate the third record,
  processed as a reference, accepts the second, which already has group 0, and takes that
  id (the late join of source lines 94 and 95); it then shares the id of the first record,
  from which it differs in 2 of 5 positions. Whatever the helper, the claimed equivalence
  fails for one of the three pairs, since the first and the second, and the second and the
  third records differ in 1 of 5 positions.
\<close>

theorem group_mutations_chain_counterexample:
  "group_mutations keep_all [''AAAAA'', ''AAAAC'', ''AAACC''] (3/10) = [Some 0, Some 0, Some 0]
   \<and> \<not> mutants (3/10) ''AAAAA'' ''AAACC''
   \<and> \<not> (\<exists>cd. (same_group (group_mutations cd [''AAAAA'', ''AAAAC'', ''AAACC''] (3/10)) 0 1
                  \<longleftrightarrow> mutants (3/10) ''AAAAA'' ''AAAAC'')
             \<and> (same_group (group_mutations cd [''AAAAA'', ''AAAAC'', ''AAACC''] (3/10)) 1 2
                  \<longleftrightarrow> mutants (3/10) ''AAAAC'' ''AAACC'')
             \<and> (same_group (group_mutations cd [''AAAAA'', ''AAAAC'', ''AAACC''] (3/10)) 0 2
                  \<longleftrightarrow> mutants (3/10) ''AAAAA'' ''AAACC''))"
proof -
  have run: "group_mutations keep_all [''AAAAA'', ''AAAAC'', ''AAACC''] (3/10) = [Some 0, Some 0, Some 0]"
    by code_simp
  have m: "mutants (3/10) ''AAAAA'' ''AAAAC''" "mutants (3/10) ''AAAAC'' ''AAACC''"
    "\<not> mutants (3/10) ''AAAAA'' ''AAACC''"
    by code_simp+
  show ?thesis using run m same_group_trans by blast
qed


subsection \<open>The numbering of the groups\<close>

text \<open>
  The test \<open>group_id == 0\<close> of source line 106 holds for the first group, and also whenever
  a later reference has joined group 0: the counter then becomes 1 whatever ids are in use.
\<close>

lemma next_group_id_zero: "next_group_id (Some 0) gs = Some 1"
  by (simp add: next_group_id_def)

lemma collision_for_every_helper:
  assumes "\<forall>s\<in>set [''AAAAA'', ''AAAAC'', ''DDDDDD'', ''DDDDDE'', ''AAACC'', ''GGGGGGG'', ''GGGGGGH''].
           \<forall>t\<in>set [''AAAAA'', ''AAAAC'', ''DDDDDD'', ''DDDDDE'', ''AAACC'', ''GGGGGGG'', ''GGGGGGH''].
             mutants (3/10) s t \<longrightarrow> cd (df_count_row s) (df_count_row t) < 3/10"
  shows "group_mutations cd [''AAAAA'', ''AAAAC'', ''DDDDDD'', ''DDDDDE'', ''AAACC'', ''GGGGGGG'', ''GGGGGGH''] (3/10)
           = [Some 0, Some 0, Some 1, Some 1, Some 0, Some 1, Some 1]"
proof -
  let ?T = "[''AAAAA'', ''AAAAC'', ''DDDDDD'', ''DDDDDE'', ''AAACC'', ''GGGGGGG'', ''GGGGGGH'']"
  have a: "\<forall>s\<in>set ?T. set s \<subseteq> set AA_letters" by code_simp
  have "group_mutations cd ?T (3/10) = group_mutations keep_all ?T (3/10)"
    by (rule pre_filter_irrelevant [OF _ a assms]) simp
  also have "\<dots> = [Some 0, Some 0, Some 1, Some 1, Some 0, Some 1, Some 1]" by code_simp
  finally show ?thesis .
qed

text \<open>
  Claim C7 fails on the code. In the table below the fifth record joins group 0 through the
  second one, after group 1 has been given to the records of length 6; the counter is then
  set to 1 instead of 2, and the two records of length 7 receive the id 1 that the records
  of length 6 already have. The ids are these for every helper that keeps the candidates
  below the threshold (\<open>collision_for_every_helper\<close>), among them the two of the theorem.
\<close>

theorem group_id_collision:
  "group_mutations half_count_distance
     [''AAAAA'', ''AAAAC'', ''DDDDDD'', ''DDDDDE'', ''AAACC'', ''GGGGGGG'', ''GGGGGGH''] (3/10)
   = [Some 0, Some 0, Some 1, Some 1, Some 0, Some 1, Some 1]
   \<and> group_mutations keep_all
     [''AAAAA'', ''AAAAC'', ''DDDDDD'', ''DDDDDE'', ''AAACC'', ''GGGGGGG'', ''GGGGGGH''] (3/10)
   = [Some 0, Some 0, Some 1, Some 1, Some 0, Some 1, Some 1]"
  by code_simp

subsection \<open>The pre-filter\<close>

text \<open>
  An estimate that is computed from the letter counts and is an upper bound of the number
  of substitutions gives "AB" the distance 1 from itself, because "BA" has the same counts
  and differs from "AB" in both positions.
\<close>

lemma count_based_upper_bound_unsafe:
  assumes "upper_bound_estimate est" and "max_rate \<le> 1"
  shows "\<not> count_estimate_helper est (df_count_row ''AB'') (df_count_row ''AB'') < max_rate"
proof -
  have same: "aa_counts (df_count_row ''BA'') = aa_counts (df_count_row ''AB'')"
    by (simp add: df_count_row_def AA_letters_def)
  have "of_nat (n_diff ''AB'' ''BA'' (length ''AB'')) \<le> est (aa_counts (df_count_row ''AB'')) (aa_counts (df_count_row ''BA''))"
    by (rule assms(1) [unfolded upper_bound_estimate_def, rule_format]) (simp add: AA_letters_def)
  moreover have "n_diff ''AB'' ''BA'' (length ''AB'') = 2"
    by (simp add: n_diff_def upt_conv_Cons)
  moreover have "len (df_count_row ''AB'') = 2"
    by (simp add: df_count_row_def AA_letters_def)
  ultimately show ?thesis using assms(2) by (simp add: same count_estimate_helper_def)
qed

text \<open>
  Claim C8, as amended, for every helper. A candidate whose helper value is at least
  \<open>max_rate\<close> is discarded before the character comparison: the pass of the reference
  leaves the candidate as it was, neither processed nor given an id, whatever its
  substitution rate. If the threshold is positive, the sequences are over the alphabet and
  the helper's value is a lower bound of the substitution rate of a reference and a
  candidate of the same length, then the pre-filter discards no candidate whose
  substitution rate is below \<open>max_rate\<close>, and group_mutations returns the ids that it
  returns with a helper that keeps every candidate.
\<close>

theorem pre_filter_discards_by_helper:
  "(k < length df_count \<and> j \<noteq> k \<and> max_rate \<le> cd (df_count ! k) (df_count ! j)
      \<longrightarrow> j \<notin> set (pre_filter cd max_rate df_count (df_count ! k) df_sub)
          \<and> s_groups (process_ref cd max_rate df_count k st) ! j = s_groups st ! j
          \<and> (j \<in> set (idx_out (process_ref cd max_rate df_count k st)) \<longleftrightarrow> j \<in> set (idx_out st)))
   \<and> (0 < max_rate \<and> (\<forall>s\<in>set df. set s \<subseteq> set AA_letters)
        \<and> (\<forall>s\<in>set df. \<forall>t\<in>set df. length s = length t
               \<longrightarrow> cd (df_count_row s) (df_count_row t) \<le> substitution_rate s t (length s))
      \<longrightarrow> (\<forall>i<length df. \<forall>l<length df. l \<in> set cands \<and> mutants max_rate (df ! i) (df ! l)
               \<longrightarrow> l \<in> set (pre_filter cd max_rate (map df_count_row df) (map df_count_row df ! i) cands))
          \<and> group_mutations cd df max_rate = group_mutations keep_all df max_rate)"
proof (intro conjI impI)
  assume a: "k < length df_count \<and> j \<noteq> k \<and> max_rate \<le> cd (df_count ! k) (df_count ! j)"
  then show "j \<notin> set (pre_filter cd max_rate df_count (df_count ! k) df_sub)"
    by (simp add: pre_filter_def)
  from a process_ref_discards [of k df_count j max_rate cd st]
  show "s_groups (process_ref cd max_rate df_count k st) ! j = s_groups st ! j"
    and "j \<in> set (idx_out (process_ref cd max_rate df_count k st)) \<longleftrightarrow> j \<in> set (idx_out st)"
    by simp_all
next
  assume h: "0 < max_rate \<and> (\<forall>s\<in>set df. set s \<subseteq> set AA_letters)
        \<and> (\<forall>s\<in>set df. \<forall>t\<in>set df. length s = length t
               \<longrightarrow> cd (df_count_row s) (df_count_row t) \<le> substitution_rate s t (length s))"
  have keeps: "\<forall>s\<in>set df. \<forall>t\<in>set df. mutants max_rate s t \<longrightarrow> cd (df_count_row s) (df_count_row t) < max_rate"
  proof (intro ballI impI)
    fix s t assume "s \<in> set df" "t \<in> set df" and m: "mutants max_rate s t"
    then have "cd (df_count_row s) (df_count_row t) \<le> substitution_rate s t (length s)"
      using h by (auto simp: mutants_def)
    also have "\<dots> < max_rate" using m by (auto simp: mutants_def)
    finally show "cd (df_count_row s) (df_count_row t) < max_rate" .
  qed
  then show "\<forall>i<length df. \<forall>l<length df. l \<in> set cands \<and> mutants max_rate (df ! i) (df ! l)
               \<longrightarrow> l \<in> set (pre_filter cd max_rate (map df_count_row df) (map df_count_row df ! i) cands)"
    by (simp add: pre_filter_def)
  from h keeps show "group_mutations cd df max_rate = group_mutations keep_all df max_rate"
    using pre_filter_irrelevant [of max_rate df cd] by blast
qed

text \<open>
  The theorem applied to the reference "AAAAA" and the candidate "AAAAB" at
  \<open>max_rate = 0.3\<close>. The summed count differences over the length are 2/5, and the
  candidate is discarded although it differs in 1 of 5 positions. Half the summed count
  differences are a lower bound (\<open>half_count_distance_le\<close>), and with them
  \<open>two_groups_table\<close> is grouped as without a pre-filter.
\<close>

theorem pre_filter_discards_by_helper_witness:
  "3/10 \<le> count_difference_distance (df_count_row ''AAAAA'') (df_count_row ''AAAAB'')
   \<and> mutants (3/10) ''AAAAA'' ''AAAAB''
   \<and> 1 \<notin> set (pre_filter count_difference_distance (3/10) (map df_count_row [''AAAAA'', ''AAAAB''])
                  (df_count_row ''AAAAA'') [1])
   \<and> group_mutations count_difference_distance [''AAAAA'', ''AAAAB''] (3/10) = [None, None]
   \<and> group_mutations half_count_distance two_groups_table (3/10)
       = group_mutations keep_all two_groups_table (3/10)"
proof -
  let ?rows = "map df_count_row [''AAAAA'', ''AAAAB'']"
  have v: "3/10 \<le> count_difference_distance (df_count_row ''AAAAA'') (df_count_row ''AAAAB'')"
    by code_simp
  have m: "mutants (3/10) ''AAAAA'' ''AAAAB''"
    by code_simp
  have r: "?rows ! 0 = df_count_row ''AAAAA''" "?rows ! 1 = df_count_row ''AAAAB''" "0 < length ?rows" "(1::nat) \<noteq> 0"
    by simp_all
  have d: "1 \<notin> set (pre_filter count_difference_distance (3/10) ?rows (df_count_row ''AAAAA'') [1])"
    using pre_filter_discards_by_helper [of 0 ?rows 1 "3/10" count_difference_distance "[1]", THEN conjunct1] v r
    by simp
  have g: "group_mutations count_difference_distance [''AAAAA'', ''AAAAB''] (3/10) = [None, None]"
    by code_simp
  have a: "\<forall>s\<in>set two_groups_table. set s \<subseteq> set AA_letters"
    by code_simp
  have k: "\<forall>s\<in>set two_groups_table. \<forall>t\<in>set two_groups_table. length s = length t
             \<longrightarrow> half_count_distance (df_count_row s) (df_count_row t) \<le> substitution_rate s t (length s)"
    using a half_count_distance_le by (simp add: substitution_rate_def)
  have p: "(0::rat) < 3/10" by simp
  have "group_mutations half_count_distance two_groups_table (3/10)
       = group_mutations keep_all two_groups_table (3/10)"
    using pre_filter_discards_by_helper [of _ _ _ "3/10" half_count_distance _ _ two_groups_table, THEN conjunct2] p a k
    by blast
  then show ?thesis using v m d g by blast
qed

text \<open>
  Claim C8 as stated fails whatever the helper is: no estimate that is computed from the
  letter counts and is an upper bound of the number of substitutions keeps the candidate
  "AB" of the reference "AB" at \<open>max_rate = 0.3\<close>, a candidate that differs from the
  reference in no position.
\<close>

theorem count_based_upper_bound_discards_identical:
  "\<not> (\<exists>est. upper_bound_estimate est
          \<and> 1 \<in> set (pre_filter (count_estimate_helper est) (3/10) (map df_count_row [''AB'', ''AB''])
                        (df_count_row ''AB'') [1]))
   \<and> mutants (3/10) ''AB'' ''AB''"
proof -
  have "mutants (3/10) ''AB'' ''AB''" by code_simp
  moreover have "\<not> count_estimate_helper est (df_count_row ''AB'') (df_count_row ''AB'') < 3/10"
    if "upper_bound_estimate est" for est
    using count_based_upper_bound_unsafe [OF that, of "3/10"] by simp
  ultimately show ?thesis by (auto simp: pre_filter_def)
qed


section \<open>Properties of the windowing\<close>

lemma py_slice_nonneg:
  "0 \<le> a \<Longrightarrow> a \<le> b \<Longrightarrow> py_slice xs a b = take (nat b - nat a) (drop (nat a) xs)"
  by (auto simp: py_slice_def py_bound_def Let_def min_def)

lemma truncate_single_uniform:
  assumes "truncate_mode st = Some ''single''" and "max_length st = Some m"
    and "0 \<le> overlap st" "overlap st < 1" and "m \<le> length prot_seq"
  shows "\<exists>start w. truncate_sequence prot_seq st None rnd = Inr ([w], [arange (int start) (int start + int m)])
            \<and> start \<le> length prot_seq - m \<and> w = take m (drop start prot_seq) \<and> length w = m"
proof -
  let ?high = "int (length prot_seq) - int m + 1"
  let ?start = "randint_draw rnd mod nat ?high"
  have high: "0 < ?high" using assms(5) by simp
  have lt: "?start < nat ?high" using high by simp
  then have le: "?start \<le> length prot_seq - m" using assms(5) by linarith
  have "truncate_sequence prot_seq st None rnd
          = Inr ([py_slice prot_seq (int ?start) (int ?start + int m)], [arange (int ?start) (int ?start + int m)])"
    using assms high
    by (simp add: truncate_sequence_def truncate_single_def single_start_def Let_def)
  moreover have "py_slice prot_seq (int ?start) (int ?start + int m) = take m (drop ?start prot_seq)"
    by (simp add: py_slice_nonneg nat_add_distrib)
  moreover have "length (take m (drop ?start prot_seq)) = m"
    using le assms(5) by simp
  ultimately show ?thesis using le by metis
qed

text \<open>
  Claim C3 fails on the code for the branch with preferred positions: the start is clipped
  to \<open>len(prot_seq) - 1\<close> and not to \<open>len(prot_seq) - max_length\<close>. For a sequence of
  length 10, \<open>max_length = 4\<close>, the preferred position 9 and a normal sample that rounds to
  7 (the mean of the distribution), the start is 7 and the window has 3 residues, while 4
  positions are returned. Without preferred positions the claim holds
  (\<open>truncate_single_uniform\<close>).
\<close>

theorem truncate_single_short_window:
  "truncate_sequence ''ABCDEFGHIK'' single_window (Some [9]) (draws0\<lparr>normal_rint := 7\<rparr>)
     = Inr ([''HIK''], [[7, 8, 9, 10]])"
  by code_simp


text \<open>
  Claim C4, as amended. With the truncate mode unset truncate_sequence returns no window for
  any sequence, settings, preferred positions and draws: it raises AssertionError when a
  preferred position is negative or the overlap is outside \<open>[0, 1)\<close>, and otherwise fails
  on the final \<open>return\<close> with UnboundLocalError. Neither dataset class reaches the call
  with an unset mode. Dataset.__getitem__ on an existing row raises AssertionError when the
  sequence has to be windowed, and otherwise does without truncate_sequence: without a
  tokenizer it returns the item with the sequence unmodified. DatasetPairs.__getitem__ on
  an index with a pending pair raises AssertionError when the sequence has to be windowed.
\<close>

theorem truncate_sequence_mode_unset:
  "truncate_sequence prot_seq (st\<lparr>truncate_mode := None\<rparr>) diff_locations rnd
     = (if (case diff_locations of None \<Rightarrow> False | Some dl \<Rightarrow> list_ex (\<lambda>x. x < 0) dl)
        then Inl AssertionError
        else if 0 \<le> overlap st \<and> overlap st < 1 then Inl UnboundLocalError
        else Inl AssertionError)
   \<and> (py_nth (sd_df ds) i = Inr prot \<and> truncate_mode (sd_settings ds) = None
        \<longrightarrow> getitem_single ds i rnd
              = (if needs_window (sd_settings ds) (protein_sequence prot) then Inl AssertionError
                 else (case sd_tokenizer ds of
                         None \<Rightarrow> Inr [(''id'', PyInt i), (''pH'', PyNum (pH prot)), (''tm'', PyNum (tm prot)),
                                       (''protein_sequence'', PyStr (protein_sequence prot))]
                       | Some tk \<Rightarrow> tk prot i None)))
   \<and> (df_loc (df_mutations dp) j = Inr prot' \<and> dict_sampled dp j = Some (q # rest)
        \<and> q < length (df_pairs dp) \<and> truncate_mode (ds_settings dp) = None
        \<and> needs_window (ds_settings dp) (protein_sequence prot')
        \<longrightarrow> getitem_pairs dp j rnd' = Inl AssertionError)"
  by (auto simp: truncate_sequence_def getitem_single_def getitem_pairs_def Let_def split: option.splits)

text \<open>
  The theorem applied to \<open>pair_table\<close>: with \<open>max_length = 4\<close> and no mode both classes
  raise AssertionError for record 0, whose sequence has 5 residues; without a maximal
  length Dataset.__getitem__ returns the sequence as it is.
\<close>

theorem truncate_sequence_mode_unset_witness:
  "getitem_single (single_ds unset_mode) 0 draws0 = Inl AssertionError
   \<and> getitem_single (single_ds no_truncation) 0 draws0
       = Inr [(''id'', PyInt 0), (''pH'', PyNum 7), (''tm'', PyNum 50), (''protein_sequence'', PyStr ''AAAAA'')]
   \<and> getitem_pairs (sampled_ds\<lparr>ds_settings := unset_mode\<rparr>) 0 draws0 = Inl AssertionError"
proof -
  have row: "py_nth (sd_df (single_ds st)) 0 = Inr (hd pair_table)" for st
    by (simp add: py_nth_def single_ds_def pair_table_def)
  have p: "protein_sequence (hd pair_table) = ''AAAAA''" "pH (hd pair_table) = 7" "tm (hd pair_table) = 50"
    by (simp_all add: pair_table_def)
  have l: "df_loc (df_mutations (sampled_ds\<lparr>ds_settings := unset_mode\<rparr>)) 0 = Inr (hd pair_table)"
    by (simp add: df_loc_def sampled_ds_def pair_table_def)
  have a: "getitem_single (single_ds unset_mode) 0 draws0 = Inl AssertionError"
    using truncate_sequence_mode_unset [where ds = "single_ds unset_mode" and i = 0 and prot = "hd pair_table" and rnd = draws0,
        THEN conjunct2, THEN conjunct1]
      row [of unset_mode] p
    by (simp add: single_ds_def unset_mode_def needs_window_def)
  have b: "getitem_single (single_ds no_truncation) 0 draws0
       = Inr [(''id'', PyInt 0), (''pH'', PyNum 7), (''tm'', PyNum 50), (''protein_sequence'', PyStr ''AAAAA'')]"
    using truncate_sequence_mode_unset [where ds = "single_ds no_truncation" and i = 0 and prot = "hd pair_table" and rnd = draws0,
        THEN conjunct2, THEN conjunct1]
      row [of no_truncation] p
    by (simp add: single_ds_def no_truncation_def needs_window_def)
  have c: "getitem_pairs (sampled_ds\<lparr>ds_settings := unset_mode\<rparr>) 0 draws0 = Inl AssertionError"
    using truncate_sequence_mode_unset [where dp = "sampled_ds\<lparr>ds_settings := unset_mode\<rparr>" and j = 0
          and prot' = "hd pair_table" and q = 0 and rest = "[]" and rnd' = draws0, THEN conjunct2, THEN conjunct2] l p
    by (simp add: sampled_ds_def unset_mode_def needs_window_def)
  show ?thesis using a b c by blast
qed

text \<open>
  Claim C4 as stated fails: for the sequence "ABCDEFGHIK" and settings with an unset mode
  the result is an error and not the sequence as the sole window.
\<close>

theorem truncate_sequence_unset_counterexample:
  "truncate_sequence ''ABCDEFGHIK'' no_truncation None draws0 = Inl UnboundLocalError"
  by (simp add: truncate_sequence_def no_truncation_def)

section \<open>Properties of the pair dataset\<close>

subsection \<open>Termination of pair_sampler\<close>

lemma sample_batches_unbounded:
  assumes run: "sample_batches df st bmin nmax cov ap s = Some r"
  shows "nmax = None \<longrightarrow> (case cov of None \<Rightarrow> True | Some c \<Rightarrow> 0 < c) \<longrightarrow> (\<exists>e. r = Inl e)"
proof (rule sample_batches.raw_induct
    [where P = "\<lambda>df st bmin nmax cov ap s r.
       nmax = None \<longrightarrow> (case cov of None \<Rightarrow> True | Some c \<Rightarrow> 0 < c) \<longrightarrow> (\<exists>e. r = Inl e)", OF _ run])
  fix rec_call :: "protein list \<Rightarrow> settings \<Rightarrow> int \<Rightarrow> int option \<Rightarrow> rat option \<Rightarrow> (int \<times> int) list \<Rightarrow> ps_state \<Rightarrow> (py_error + ps_state) option"
    and df st bmin nmax cov ap s r
  assume IH: "\<And>df st bmin nmax cov ap s r. rec_call df st bmin nmax cov ap s = Some r \<Longrightarrow>
      nmax = None \<longrightarrow> (case cov of None \<Rightarrow> True | Some c \<Rightarrow> 0 < c) \<longrightarrow> (\<exists>e. r = Inl e)"
    and body: "(if (case nmax of None \<Rightarrow> True | Some n \<Rightarrow> int (i_batch s) \<le> n)
         \<and> (case cov of None \<Rightarrow> True | Some c \<Rightarrow> 0 < c)
      then
        (case sample_batch df st bmin ap 0 s of
           Inl e \<Rightarrow> Some (Inl e)
         | Inr s' \<Rightarrow> rec_call df st bmin nmax cov ap (s'\<lparr>i_batch := Suc (i_batch s')\<rparr>))
      else Some (Inr s)) = Some r"
  show "nmax = None \<longrightarrow> (case cov of None \<Rightarrow> True | Some c \<Rightarrow> 0 < c) \<longrightarrow> (\<exists>e. r = Inl e)"
  proof (intro impI)
    assume n: "nmax = None" and c: "case cov of None \<Rightarrow> True | Some c \<Rightarrow> 0 < c"
    show "\<exists>e. r = Inl e"
    proof (cases "sample_batch df st bmin ap 0 s")
      case (Inl e)
      then have "r = Inl e" using body n c by simp
      then show ?thesis by blast
    next
      case (Inr s')
      then have "rec_call df st bmin nmax cov ap (s'\<lparr>i_batch := Suc (i_batch s')\<rparr>) = Some r"
        using body n c by simp
      from IH [OF this] show ?thesis using n c by simp
    qed
  qed
qed

lemma sample_batches_diverges:
  assumes run: "sample_batches df st bmin nmax cov ap s = Some r"
  shows "\<not> (bmin \<le> 0 \<and> nmax = None \<and> (case cov of None \<Rightarrow> True | Some c \<Rightarrow> 0 < c))"
proof (rule sample_batches.raw_induct
    [where P = "\<lambda>df st bmin nmax cov ap s r.
       \<not> (bmin \<le> 0 \<and> nmax = None \<and> (case cov of None \<Rightarrow> True | Some c \<Rightarrow> 0 < c))", OF _ run])
  fix rec_call :: "protein list \<Rightarrow> settings \<Rightarrow> int \<Rightarrow> int option \<Rightarrow> rat option \<Rightarrow> (int \<times> int) list \<Rightarrow> ps_state \<Rightarrow> (py_error + ps_state) option"
    and df st bmin nmax cov ap s r
  assume IH: "\<And>df st bmin nmax cov ap s r. rec_call df st bmin nmax cov ap s = Some r \<Longrightarrow>
      \<not> (bmin \<le> 0 \<and> nmax = None \<and> (case cov of None \<Rightarrow> True | Some c \<Rightarrow> 0 < c))"
    and body: "(if (case nmax of None \<Rightarrow> True | Some n \<Rightarrow> int (i_batch s) \<le> n)
         \<and> (case cov of None \<Rightarrow> True | Some c \<Rightarrow> 0 < c)
      then
        (case sample_batch df st bmin ap 0 s of
           Inl e \<Rightarrow> Some (Inl e)
         | Inr s' \<Rightarrow> rec_call df st bmin nmax cov ap (s'\<lparr>i_batch := Suc (i_batch s')\<rparr>))
      else Some (Inr s)) = Some r"
  show "\<not> (bmin \<le> 0 \<and> nmax = None \<and> (case cov of None \<Rightarrow> True | Some c \<Rightarrow> 0 < c))"
  proof
    assume h: "bmin \<le> 0 \<and> nmax = None \<and> (case cov of None \<Rightarrow> True | Some c \<Rightarrow> 0 < c)"
    then have "sample_batch df st bmin ap 0 s = Inr s" by (simp add: sample_batch.simps)
    then have "rec_call df st bmin nmax cov ap (s\<lparr>i_batch := Suc (i_batch s)\<rparr>) = Some r"
      using body h by simp
    from IH [OF this] h show False by simp
  qed
qed

lemma pair_sampler_coverage_only_never_returns:
  assumes "0 < c"
  shows "pair_sampler ds bmin None (Some c) ap \<noteq> Some (Inr res)"
  using assms sample_batches_unbounded [of "df_mutations ds" "ds_settings ds" bmin None "Some c" ap]
  by (auto simp: pair_sampler_def split: option.splits sum.splits if_splits)

lemma pair_sampler_coverage_only_diverges:
  assumes "0 < c" and "bmin \<le> 0"
  shows "pair_sampler ds bmin None (Some c) ap = None"
  using assms sample_batches_diverges [of "df_mutations ds" "ds_settings ds" bmin None "Some c" ap]
  by (auto simp: pair_sampler_def split: option.splits sum.splits if_splits)

text \<open>
  Claim C2 fails on the code. With only \<open>coverage_rate_min = 0.5\<close> and
  \<open>batch_size_min = 1\<close> on a group of two records, the first batch takes the only pair and
  covers every record, but the loop condition still compares 0 with 0.5; the next batch
  reads \<open>all_pairs[1]\<close> and raises IndexError. The second conjunct shows the same table
  sampled with \<open>n_batches_max = 0\<close>: one batch, coverage 1. In general a call with only a
  positive \<open>coverage_rate_min\<close> never returns a result
  (\<open>pair_sampler_coverage_only_never_returns\<close>), and with \<open>batch_size_min \<le> 0\<close> it does not
  terminate (\<open>pair_sampler_coverage_only_diverges\<close>).
\<close>

theorem pair_sampler_coverage_not_checked:
  "(case pair_sampler (DatasetPairs_init pair_table None no_truncation) 1 None (Some (1/2)) [(0, 1)] of
      Some (Inl e) \<Rightarrow> e = IndexError | _ \<Rightarrow> False)
   \<and> (case pair_sampler (DatasetPairs_init pair_table None no_truncation) 1 (Some 0) None [(0, 1)] of
         Some (Inr (batches, ds)) \<Rightarrow> batches = [[0, 1]] \<and> coverage_rate pair_table (df_pairs ds) = 1
       | _ \<Rightarrow> False)"
  by code_simp


subsection \<open>__getitem__ without a tokenizer\<close>

text \<open>
  Claim C10, as amended. Without a tokenizer __getitem__ never returns an item, whatever
  the index, the state and the draws. For an index with a pending pair the error is the
  following. When the sequence is within the length bound it is UnboundLocalError, raised
  by the write to \<open>data\<close>. When the sequence has to be windowed, the windowing step comes
  first: a mode other than "single" and "split" raises AssertionError, an error of
  truncate_sequence is raised as it is, and only when truncate_sequence returns windows
  does the write to \<open>data\<close> raise UnboundLocalError.
\<close>

theorem getitem_pairs_no_tokenizer:
  "(\<exists>e. getitem_pairs (ds\<lparr>tokenizer := None\<rparr>) i rnd = Inl e)
   \<and> (df_loc (df_mutations ds) i = Inr prot
        \<and> dict_sampled ds i = Some (q # rest) \<and> q < length (df_pairs ds)
      \<longrightarrow> getitem_pairs (ds\<lparr>tokenizer := None\<rparr>) i rnd
            = Inl (if needs_window (ds_settings ds) (protein_sequence prot)
                   then (if truncate_mode (ds_settings ds) \<noteq> Some ''single''
                            \<and> truncate_mode (ds_settings ds) \<noteq> Some ''split''
                         then AssertionError
                         else (case truncate_sequence (protein_sequence prot) (ds_settings ds)
                                      (Some (diff_locations_col (df_pairs ds ! q))) rnd of
                                 Inl e \<Rightarrow> e
                               | Inr w \<Rightarrow> UnboundLocalError))
                   else UnboundLocalError))"
  by (auto simp: getitem_pairs_def Let_def split: sum.splits option.splits list.splits)

text \<open>
  The theorem applied to record 0 of \<open>sampled_ds\<close>, whose sequence has 5 residues. With
  \<open>max_length = 4\<close> in "single" mode the window starts at 1 and the access then fails on
  \<open>data\<close>; with \<open>max_length = 4\<close> and no mode the assertion fails first; with the recorded
  positions of the pair removed, \<open>np.random.choice\<close> fails first; without a maximal length
  the access fails on \<open>data\<close>.
\<close>

theorem getitem_pairs_no_tokenizer_witness:
  "getitem_pairs (sampled_ds\<lparr>tokenizer := None\<rparr>) 0 (draws0\<lparr>normal_rint := 1\<rparr>) = Inl UnboundLocalError
   \<and> getitem_pairs (sampled_ds\<lparr>ds_settings := unset_mode, tokenizer := None\<rparr>) 0 draws0 = Inl AssertionError
   \<and> getitem_pairs (sampled_ds\<lparr>df_pairs := map (\<lambda>r. r\<lparr>diff_locations_col := []\<rparr>) (df_pairs sampled_ds),
                                tokenizer := None\<rparr>) 0 draws0 = Inl ValueError
   \<and> getitem_pairs (sampled_ds\<lparr>ds_settings := no_truncation, tokenizer := None\<rparr>) 0 draws0 = Inl UnboundLocalError"
proof -
  have l: "df_loc pair_table 0 = Inr (hd pair_table)"
    by (simp add: df_loc_def pair_table_def)
  have p: "protein_sequence (hd pair_table) = ''AAAAA''"
    by (simp add: pair_table_def)
  have w: "truncate_sequence ''AAAAA'' single_window (Some [4]) (draws0\<lparr>normal_rint := 1\<rparr>)
       = Inr ([''AAAA''], [[1, 2, 3, 4]])"
    by code_simp
  have v: "truncate_sequence ''AAAAA'' single_window (Some []) draws0 = Inl ValueError"
    by code_simp
  have a: "getitem_pairs (sampled_ds\<lparr>tokenizer := None\<rparr>) 0 (draws0\<lparr>normal_rint := 1\<rparr>) = Inl UnboundLocalError"
    using getitem_pairs_no_tokenizer [of sampled_ds 0 "draws0\<lparr>normal_rint := 1\<rparr>" "hd pair_table" 0 "[]", THEN conjunct2]
      l p w
    by (simp add: sampled_ds_def single_window_def needs_window_def)
  have b: "getitem_pairs (sampled_ds\<lparr>ds_settings := unset_mode, tokenizer := None\<rparr>) 0 draws0 = Inl AssertionError"
    using getitem_pairs_no_tokenizer [of "sampled_ds\<lparr>ds_settings := unset_mode\<rparr>" 0 draws0 "hd pair_table" 0 "[]", THEN conjunct2]
      l p
    by (simp add: sampled_ds_def unset_mode_def needs_window_def)
  have c: "getitem_pairs (sampled_ds\<lparr>df_pairs := map (\<lambda>r. r\<lparr>diff_locations_col := []\<rparr>) (df_pairs sampled_ds),
                                tokenizer := None\<rparr>) 0 draws0 = Inl ValueError"
    using getitem_pairs_no_tokenizer [of "sampled_ds\<lparr>df_pairs := map (\<lambda>r. r\<lparr>diff_locations_col := []\<rparr>) (df_pairs sampled_ds)\<rparr>"
        0 draws0 "hd pair_table" 0 "[]", THEN conjunct2]
      l p v
    by (simp add: sampled_ds_def single_window_def needs_window_def)
  have d: "getitem_pairs (sampled_ds\<lparr>ds_settings := no_truncation, tokenizer := None\<rparr>) 0 draws0 = Inl UnboundLocalError"
    using getitem_pairs_no_tokenizer [of "sampled_ds\<lparr>ds_settings := no_truncation\<rparr>" 0 draws0 "hd pair_table" 0 "[]", THEN conjunct2]
      l p
    by (simp add: sampled_ds_def no_truncation_def needs_window_def)
  show ?thesis using a b c d by blast
qed

text \<open>
  Claim C10 as stated fails on the kind of the error: for a pair of two records with the
  same sequence pair_sampler records no differing position, and in "single" mode
  \<open>np.random.choice\<close> on the empty list raises ValueError before \<open>data\<close> is reached.
\<close>

theorem getitem_pairs_value_error_counterexample:
  "(case pair_sampler (DatasetPairs_init dup_table None single_window) 1 (Some 0) None [(0, 1)] of
      Some (Inr (batches, ds)) \<Rightarrow>
        batches = [[0, 1]] \<and> dict_sampled ds 0 = Some [0]
        \<and> (case getitem_pairs ds 0 draws0 of Inl e \<Rightarrow> e = ValueError | Inr r \<Rightarrow> False)
    | _ \<Rightarrow> False)"
  by code_simp

section \<open>Properties of the collation\<close>

lemma read_key_cur: "read_key d k upd a = Inl (e, a') \<Longrightarrow> cur a' = cur a"
  by (auto simp: read_key_def split: sum.splits)

lemma then_step_Inl:
  "then_step r f = Inl ea \<Longrightarrow> r = Inl ea \<or> (\<exists>a. r = Inr a \<and> f a = Inl ea)"
  by (auto simp: then_step_def split: sum.splits)

lemma then_step_Inr:
  "then_step r f = Inr b \<Longrightarrow> \<exists>a. r = Inr a \<and> f a = Inr b"
  by (auto simp: then_step_def split: sum.splits)

lemma collate_step_cur:
  "collate_step pairs d a = Inl (e, a') \<Longrightarrow> cur a' = Some d"
  "collate_step pairs d a = Inr a'' \<Longrightarrow> cur a'' = Some d"
  by (auto simp: collate_step_def then_step_def read_key_def read_len_def read_tm_def
      split: sum.splits option.splits if_splits)

lemma collate_loop_cur_error:
  "collate_loop pairs batch a = Inl (e, a') \<Longrightarrow> cur a' \<noteq> None"
proof (induction batch arbitrary: a)
  case Nil
  then show ?case by simp
next
  case (Cons d batch)
  then show ?case using collate_step_cur by (auto split: sum.splits)
qed

lemma collate_loop_cur_result:
  "collate_loop pairs batch a = Inr a'' \<Longrightarrow> batch \<noteq> [] \<or> cur a \<noteq> None \<Longrightarrow> cur a'' \<noteq> None"
proof (induction batch arbitrary: a)
  case Nil
  then show ?case by simp
next
  case (Cons d batch)
  then show ?case using collate_step_cur(2) by (auto split: sum.splits)
qed

lemma collate_finish_cur:
  "collate_finish pairs tm_first a = Inl (e, a') \<Longrightarrow> cur a \<noteq> None \<Longrightarrow> cur a' \<noteq> None"
  by (auto simp: collate_finish_def Let_def split: sum.splits if_splits)

lemma collate_body_cur:
  assumes "batch \<noteq> []" and "collate_body pairs batch = Inl (e, a)"
  shows "cur a \<noteq> None"
proof -
  obtain a0 tm_first where body:
    "collate_body pairs batch =
       (case collate_loop pairs batch a0 of Inl ea \<Rightarrow> Inl ea | Inr a1 \<Rightarrow> collate_finish pairs tm_first a1)"
    by (simp add: collate_body_def Let_def)
  show ?thesis
  proof (cases "collate_loop pairs batch a0")
    case (Inl ea)
    then show ?thesis using assms(2) body collate_loop_cur_error [of pairs batch a0 e a] by simp
  next
    case (Inr a1)
    then have "cur a1 \<noteq> None" using collate_loop_cur_result assms(1) by blast
    then show ?thesis using Inr assms(2) body collate_finish_cur by simp
  qed
qed

lemma Dataset_collate_returns:
  assumes "batch \<noteq> []"
  shows "\<exists>d. snd (Dataset_collate batch) = Inr d"
proof (cases "collate_body False batch")
  case (Inl ea)
  obtain e a where ea: "ea = (e, a)" by (cases ea)
  then have "cur a \<noteq> None" using collate_body_cur [OF assms] Inl by simp
  then show ?thesis using assms Inl ea by (auto simp: Dataset_collate_def)
next
  case (Inr d)
  then show ?thesis using assms by (simp add: Dataset_collate_def)
qed

lemma Dataset_collate_logs:
  assumes "batch \<noteq> []" and "collate_body False batch = Inl (e, a)"
  shows "fst (Dataset_collate batch) = [Error_in_protein (ids a) e]"
  using assms by (simp add: Dataset_collate_def)

lemma DatasetPairs_collate_propagates:
  assumes "batch \<noteq> []" and "collate_body True batch = Inl (e, a)"
  shows "DatasetPairs_collate batch = Inl e"
  using assms by (simp add: DatasetPairs_collate_def)

text \<open>
  Claim C5 fails on the code for DatasetPairs.collate, which has no try block: for a batch
  of two items whose windows have widths 3 and 4 the concatenation fails and the error
  reaches the caller. Dataset.collate on the same batch prints the error and returns the
  last item; it returns a value for every non-empty batch (\<open>Dataset_collate_returns\<close>).
\<close>

theorem collate_pairs_propagates_shape_mismatch:
  "DatasetPairs_collate [window_item 0 3, window_item 1 4] = Inl RuntimeError
   \<and> Dataset_collate [window_item 0 3, window_item 1 4]
       = ([Error_in_protein [PyInt 0, PyInt 1] RuntimeError], Inr (window_item 1 4))"
  by code_simp


section \<open>Properties of the mutation locations\<close>

lemma mutation_sites_filter:
  "mutation_sites p prot_ref
     = filter (\<lambda>i. protein_sequence p ! i \<noteq> protein_sequence prot_ref ! i) [0..<seq_len prot_ref]"
proof -
  let ?P = "\<lambda>i. protein_sequence p ! i \<noteq> protein_sequence prot_ref ! i"
  have "{i. i < seq_len prot_ref \<and> ?P i} = set (filter ?P [0..<seq_len prot_ref])"
    by auto
  moreover have "sorted (filter ?P [0..<seq_len prot_ref])" "distinct (filter ?P [0..<seq_len prot_ref])"
    by (simp_all add: sorted_wrt_filter)
  ultimately show ?thesis
    unfolding mutation_sites_def
    by (simp only: sorted_list_of_set.idem_if_sorted_distinct)
qed

lemma diff_loc_Inr:
  "diff_loc (protein_sequence p) (protein_sequence r) (seq_len r) = Inr d \<Longrightarrow> d = mutation_sites p r"
  by (auto simp: diff_loc_def mutation_sites_filter split: if_splits)

lemma locate_others_result:
  assumes "distinct (map seq_id others)"
    and "locate_others prot_ref others locations = Inr locations'"
  shows "locations' k =
     (case find (\<lambda>p. seq_id p = k) others of
        None \<Rightarrow> locations k
      | Some p \<Rightarrow> if mutation_sites p prot_ref = [] then locations k else Some (mutation_sites p prot_ref))"
  using assms
proof (induction others arbitrary: locations)
  case Nil
  then show ?case by simp
next
  case (Cons m others)
  from Cons.prems(2) obtain d where d: "diff_loc (protein_sequence m) (protein_sequence prot_ref) (seq_len prot_ref) = Inr d"
    and rest: "locate_others prot_ref others (if length d > 0 then locations(seq_id m \<mapsto> d) else locations) = Inr locations'"
    by (auto split: sum.splits)
  have dm: "d = mutation_sites m prot_ref" using d by (rule diff_loc_Inr)
  have dist: "distinct (map seq_id others)" and notin: "seq_id m \<notin> seq_id ` set others"
    using Cons.prems(1) by auto
  note IH = Cons.IH [OF dist rest, of ]
  show ?case
  proof (cases "seq_id m = k")
    case True
    then have "find (\<lambda>p. seq_id p = k) others = None"
      using notin by (auto simp: find_None_iff image_iff)
    then show ?thesis using IH True dm by simp
  next
    case False
    then show ?thesis using IH by (simp split: option.splits)
  qed
qed


lemma find_filter:
  "find P (filter Q xs) = find (\<lambda>x. Q x \<and> P x) xs"
  by (induction xs) auto

lemma find_key_filter:
  assumes "distinct (map f xs)"
  shows "find (\<lambda>x. f x = k) (filter Q xs)
           = (case find (\<lambda>x. f x = k) xs of None \<Rightarrow> None | Some p \<Rightarrow> if Q p then Some p else None)"
  using assms
proof (induction xs)
  case Nil
  then show ?case by simp
next
  case (Cons x xs)
  show ?case
  proof (cases "f x = k")
    case True
    then have "find (\<lambda>y. f y = k) (filter Q xs) = None"
      using Cons.prems by (auto simp: find_None_iff image_iff)
    then show ?thesis using True by simp
  next
    case False
    then show ?thesis using Cons by simp
  qed
qed

lemma find_key_member:
  assumes "distinct (map f xs)" and "p \<in> set xs"
  shows "find (\<lambda>x. f x = f p) xs = Some p"
  using assms
proof (induction xs)
  case Nil
  then show ?case by simp
next
  case (Cons x xs)
  then show ?case by (auto simp: image_iff)
qed

lemma locate_group_result:
  assumes "distinct (map seq_id grp)"
    and "locate_group fl pick grp locations = Inr locations'"
  shows "locations' k =
     (case find (\<lambda>p. seq_id p = k) grp of
        None \<Rightarrow> locations k
      | Some p \<Rightarrow>
          if seq_id p = seq_id (grp ! reference_index fl pick grp)
             \<or> mutation_sites p (grp ! reference_index fl pick grp) = []
          then locations k
          else Some (mutation_sites p (grp ! reference_index fl pick grp)))"
proof -
  let ?r = "grp ! reference_index fl pick grp"
  let ?others = "filter (\<lambda>p. seq_id p \<noteq> seq_id ?r) grp"
  have run: "locate_others ?r ?others locations = Inr locations'"
    using assms(2) by (simp add: locate_group_def Let_def)
  have "distinct (map seq_id ?others)"
    using assms(1) by (simp add: distinct_map_filter)
  from locate_others_result [OF this run, of k]
  show ?thesis
    by (simp add: find_key_filter [OF assms(1)] split: option.splits)
qed

lemma locate_groups_result:
  assumes "distinct (map seq_id df)" and "distinct gs"
    and "locate_groups fl pick df gs locations = Inr locations'"
  shows "locations' k =
     (case find (\<lambda>p. seq_id p = k) df of
        None \<Rightarrow> locations k
      | Some p \<Rightarrow>
          (case sub_group p of
             None \<Rightarrow> locations k
           | Some g \<Rightarrow>
               if g \<in> set gs \<and> seq_id p \<noteq> seq_id (group_reference fl pick df g)
                  \<and> mutation_sites p (group_reference fl pick df g) \<noteq> []
               then Some (mutation_sites p (group_reference fl pick df g))
               else locations k))"
  using assms(2,3)
proof (induction gs arbitrary: locations)
  case Nil
  then show ?case by (simp split: option.splits)
next
  case (Cons g0 gs)
  from Cons.prems(2) obtain locations1 where
    first: "locate_group fl (pick g0) (group_rows df g0) locations = Inr locations1"
    and rest: "locate_groups fl pick df gs locations1 = Inr locations'"
    by (auto split: sum.splits)
  have dg: "distinct (map seq_id (group_rows df g0))"
    using assms(1) by (simp add: group_rows_def distinct_map_filter)
  have l1: "locations1 k =
     (case find (\<lambda>p. seq_id p = k) df of
        None \<Rightarrow> locations k
      | Some p \<Rightarrow>
          if sub_group p = Some g0 \<and> seq_id p \<noteq> seq_id (group_reference fl pick df g0)
             \<and> mutation_sites p (group_reference fl pick df g0) \<noteq> []
          then Some (mutation_sites p (group_reference fl pick df g0))
          else locations k)"
    using locate_group_result [OF dg first, of k]
    by (simp add: group_rows_def group_reference_def find_key_filter [OF assms(1)] split: option.splits)
  have dgs: "distinct gs" and g0: "g0 \<notin> set gs" using Cons.prems(1) by auto
  from Cons.IH [OF dgs rest] l1 g0 show ?case
    by (auto split: option.splits)
qed


lemma argmin_least:
  assumes "xs \<noteq> []"
  shows "argmin xs < length xs \<and> (\<forall>x\<in>set xs. xs ! argmin xs \<le> x)
         \<and> (\<forall>q<argmin xs. xs ! argmin xs < xs ! q)"
proof -
  obtain y ys where xs: "xs = y # ys" using assms by (cases xs) auto
  let ?m = "fold min xs (hd xs)"
  have "?m = fold min ys y" by (simp add: xs)
  also have "\<dots> = Min (set (y # ys))" by (rule Min.set_eq_fold [symmetric])
  finally have m: "?m = Min (set xs)" by (simp only: xs)
  then have in_set: "?m \<in> set xs" using assms by simp
  have neq: "takeWhile (\<lambda>x. x \<noteq> ?m) xs \<noteq> xs"
    using in_set by (auto simp: takeWhile_eq_all_conv)
  have "length (takeWhile (\<lambda>x. x \<noteq> ?m) xs) \<le> length xs"
    by (rule length_takeWhile_le)
  moreover have "length (takeWhile (\<lambda>x. x \<noteq> ?m) xs) \<noteq> length xs"
    using neq by (metis takeWhile_eq_take take_all order_refl)
  ultimately have lt: "length (takeWhile (\<lambda>x. x \<noteq> ?m) xs) < length xs" by simp
  from nth_length_takeWhile [OF lt] have at: "xs ! argmin xs = ?m"
    by (simp add: argmin_def Let_def)
  have first: "xs ! argmin xs < xs ! q" if "q < argmin xs" for q
  proof -
    have q: "q < length (takeWhile (\<lambda>x. x \<noteq> ?m) xs)" using that by (simp add: argmin_def Let_def)
    then have "takeWhile (\<lambda>x. x \<noteq> ?m) xs ! q \<in> set (takeWhile (\<lambda>x. x \<noteq> ?m) xs)" by simp
    then have "takeWhile (\<lambda>x. x \<noteq> ?m) xs ! q \<noteq> ?m" by (rule set_takeWhileD [THEN conjunct2])
    then have ne: "xs ! q \<noteq> ?m" using takeWhile_nth [OF q] by simp
    have "q < length xs" using q lt by simp
    then have "?m \<le> xs ! q" unfolding m by simp
    then show ?thesis using ne at by simp
  qed
  show ?thesis using lt m at first by (simp add: argmin_def Let_def)
qed

lemma length_tm_distances: "length (tm_distances fl grp) = length grp"
  by (simp add: tm_distances_def Let_def)

lemma reference_index_in_group:
  assumes "grp \<noteq> []"
  shows "reference_index fl pick grp < length grp"
proof -
  have "tm_distances fl grp \<noteq> []"
    using assms length_tm_distances [of fl grp] by auto
  from argmin_least [OF this] have "argmin (tm_distances fl grp) < length grp"
    by (simp add: length_tm_distances)
  then show ?thesis using assms by (cases grp) (auto simp: reference_index_def)
qed

lemma reference_index_closest:
  assumes "grp \<noteq> []" and "length grp \<noteq> 2"
  shows "(\<forall>q<length grp. tm_distances fl grp ! reference_index fl pick grp \<le> tm_distances fl grp ! q)
         \<and> (\<forall>q<reference_index fl pick grp.
               tm_distances fl grp ! reference_index fl pick grp < tm_distances fl grp ! q)"
proof -
  have ne: "tm_distances fl grp \<noteq> []"
    using assms(1) length_tm_distances [of fl grp] by auto
  have r: "reference_index fl pick grp = argmin (tm_distances fl grp)"
    using assms(2) by (simp add: reference_index_def)
  show ?thesis
    unfolding r using argmin_least [OF ne] length_tm_distances [of fl grp] by (metis nth_mem)
qed

text \<open>
  In exact arithmetic the distances are the absolute differences from the median, and the
  reference of a group of other than two members is a member closest to the median.
\<close>

lemma reference_exact_closest:
  assumes "grp \<noteq> []" and "length grp \<noteq> 2" and "q \<in> set grp"
  shows "\<bar>tm (grp ! reference_index (\<lambda>x. x) pick grp) - median (\<lambda>x. x) (map tm grp)\<bar>
           \<le> \<bar>tm q - median (\<lambda>x. x) (map tm grp)\<bar>"
proof -
  obtain k where k: "k < length grp" "q = grp ! k" using assms(3) by (auto simp: in_set_conv_nth)
  have r: "reference_index (\<lambda>x. x) pick grp < length grp" by (rule reference_index_in_group [OF assms(1)])
  have "tm_distances (\<lambda>x. x) grp ! reference_index (\<lambda>x. x) pick grp \<le> tm_distances (\<lambda>x. x) grp ! k"
    using reference_index_closest [OF assms(1,2), of "\<lambda>x. x" pick] k(1) by blast
  then show ?thesis using k r by (simp add: tm_distances_def Let_def)
qed

text \<open>
  A group with an odd number of members has a member whose tm is the median, and no
  rounding is involved in the median. If the rounding maps zero, and nothing else, to zero
  (as the rounding of a difference of two floats does), the reference is the first member
  whose tm is the median.
\<close>

lemma median_odd_member:
  assumes "length grp mod 2 = 1"
  shows "\<exists>q<length grp. tm (grp ! q) = median fl (map tm grp)"
proof -
  let ?ys = "sort (map tm grp)"
  have "length grp div 2 < length ?ys" using assms by (cases grp) auto
  then have "?ys ! (length grp div 2) \<in> set ?ys" by (rule nth_mem)
  then have "?ys ! (length grp div 2) \<in> tm ` set grp" by simp
  then obtain p where "p \<in> set grp" "tm p = ?ys ! (length grp div 2)" by auto
  then show ?thesis using assms by (auto simp: median_def Let_def in_set_conv_nth)
qed

lemma reference_odd_group:
  assumes "length grp mod 2 = 1" and "length grp \<noteq> 2" and "\<And>x. fl x = 0 \<longleftrightarrow> x = 0"
  shows "tm (grp ! reference_index fl pick grp) = median fl (map tm grp)
         \<and> (\<forall>q<reference_index fl pick grp. tm (grp ! q) \<noteq> median fl (map tm grp))"
proof -
  have ne: "grp \<noteq> []" using assms(1) by auto
  let ?r = "reference_index fl pick grp"
  have r: "?r < length grp" by (rule reference_index_in_group [OF ne])
  have d: "tm_distances fl grp ! q = \<bar>fl (tm (grp ! q) - median fl (map tm grp))\<bar>" if "q < length grp" for q
    using that by (simp add: tm_distances_def Let_def)
  have zero: "tm_distances fl grp ! q = 0 \<longleftrightarrow> tm (grp ! q) = median fl (map tm grp)" if "q < length grp" for q
    using d [OF that] assms(3) by simp
  obtain q0 where q0: "q0 < length grp" "tm (grp ! q0) = median fl (map tm grp)"
    using median_odd_member [OF assms(1)] by blast
  note c = reference_index_closest [OF ne assms(2), of fl pick]
  have "tm_distances fl grp ! ?r \<le> tm_distances fl grp ! q0" using c q0(1) by blast
  also have "\<dots> = 0" using zero [OF q0(1)] q0(2) by simp
  finally have "tm_distances fl grp ! ?r = 0" using d [OF r] by simp
  then have at: "tm (grp ! ?r) = median fl (map tm grp)" using zero [OF r] by simp
  have "tm (grp ! q) \<noteq> median fl (map tm grp)" if "q < ?r" for q
  proof -
    have "q < length grp" using that r by simp
    moreover have "tm_distances fl grp ! ?r < tm_distances fl grp ! q" using c that by blast
    ultimately show ?thesis using zero [of q] \<open>tm_distances fl grp ! ?r = 0\<close> by auto
  qed
  then show ?thesis using at by blast
qed

text \<open>
  In a group with an even number of members the two middle members are at the same
  distance from the exact mean of their tm values, and the rounding decides between them:
  in \<open>tie_group\<close> the exact arithmetic selects the second member and the rounded sum the
  third.
\<close>

lemma reference_rounding_decides:
  "reference_index (\<lambda>x. x) pick tie_group = 1 \<and> reference_index tie_rounding pick tie_group = 2"
  by code_simp




text \<open>A record without a group has no entry either.\<close>

lemma locate_mutations_ungrouped:
  assumes "distinct (map seq_id df)" and "locate_mutations fl pick df = Inr locations"
    and "p \<in> set df" and "sub_group p = None"
  shows "locations (seq_id p) = None"
  using locate_groups_result [OF assms(1) _ assms(2) [unfolded locate_mutations_def], of "seq_id p"]
  by (simp add: find_key_member [OF assms(1,3)] assms(4) group_keys_def)




section \<open>The occurrence counters and the queues of pair_sampler\<close>

lemma alist_update_fresh:
  "k \<notin> fst ` set al \<Longrightarrow> AList.update k v al = al @ [(k, v)]"
  by (induction al) auto

lemma queue_upto_Suc:
  "queue_upto ap k (Suc n)
     = queue_upto ap k n @ (if fst (ap ! n) = k \<or> snd (ap ! n) = k then [n] else [])"
  by (simp add: queue_upto_def)

lemma sample_pair_effect:
  assumes "sample_pair df st ap s = Inr (n_AA, s')"
  obtains row where "id_1 row = fst (ap ! i_pair s)" and "id_2 row = snd (ap ! i_pair s)"
    and "s' = s\<lparr>dict_pairs := AList.update (ap ! i_pair s) row (dict_pairs s),
                    ps_sampled := append_sampled (append_sampled (ps_sampled s) (fst (ap ! i_pair s)) (i_pair s))
                                    (snd (ap ! i_pair s)) (i_pair s),
                    ps_occurrence := (let occ = (ps_occurrence s)(fst (ap ! i_pair s) := ps_occurrence s (fst (ap ! i_pair s)) + 1)
                                      in occ(snd (ap ! i_pair s) := occ (snd (ap ! i_pair s)) + 1))\<rparr>"
proof -
  obtain i1 i2 where p: "ap ! i_pair s = (i1, i2)" by (cases "ap ! i_pair s")
  from assms p obtain prot_1 where l1: "df_loc df i1 = Inr prot_1"
    by (cases "df_loc df i1") (simp_all add: sample_pair_def)
  from assms p l1 obtain prot_2 where l2: "df_loc df i2 = Inr prot_2"
    by (cases "df_loc df i2") (simp_all add: sample_pair_def)
  from assms p l1 l2 have g: "get_number_AA (protein_sequence prot_1) st = Inr (Some n_AA)"
    by (cases "get_number_AA (protein_sequence prot_1) st")
      (auto simp: sample_pair_def split: option.splits sum.splits)
  from assms p l1 l2 g obtain dl where
    d: "pair_diff_locations (protein_sequence prot_1) (protein_sequence prot_2)
          (sub_locations_union prot_1 prot_2) = Inr dl"
    by (cases "pair_diff_locations (protein_sequence prot_1) (protein_sequence prot_2)
          (sub_locations_union prot_1 prot_2)") (simp_all add: sample_pair_def)
  from assms p l1 l2 g d have
    "s' = s\<lparr>dict_pairs := AList.update (i1, i2)
                 \<lparr>id_1 = i1, id_2 = i2, i_batch_col = i_batch s, diff_tm = tm prot_1 - tm prot_2,
                  sub_group_col = sub_group prot_1, diff_locations_col = dl\<rparr> (dict_pairs s),
             ps_sampled := append_sampled (append_sampled (ps_sampled s) i1 (i_pair s)) i2 (i_pair s),
             ps_occurrence := (let occ = (ps_occurrence s)(i1 := ps_occurrence s i1 + 1)
                               in occ(i2 := occ i2 + 1))\<rparr>"
    by (simp add: sample_pair_def)
  then show thesis
    using that [of "\<lparr>id_1 = i1, id_2 = i2, i_batch_col = i_batch s, diff_tm = tm prot_1 - tm prot_2,
                  sub_group_col = sub_group prot_1, diff_locations_col = dl\<rparr>"] p
    by simp
qed

lemma ps_inv_step:
  assumes inv: "ps_inv ap occ0 s" and lt: "i_pair s < length ap"
    and dist: "distinct ap" and neq: "\<forall>(a, b)\<in>set ap. a \<noteq> b"
    and run: "sample_pair df st ap s = Inr (n_AA, s')"
  shows "ps_inv ap occ0 (s'\<lparr>i_pair := Suc (i_pair s)\<rparr>)"
proof -
  let ?n = "i_pair s"
  let ?a = "fst (ap ! ?n)" and ?b = "snd (ap ! ?n)"
  from run obtain row where
    row: "id_1 row = ?a" "id_2 row = ?b"
    and s': "s' = s\<lparr>dict_pairs := AList.update (ap ! ?n) row (dict_pairs s),
                    ps_sampled := append_sampled (append_sampled (ps_sampled s) ?a ?n) ?b ?n,
                    ps_occurrence := (let occ = (ps_occurrence s)(?a := ps_occurrence s ?a + 1)
                                      in occ(?b := occ ?b + 1))\<rparr>"
    by (rule sample_pair_effect)
  have ab: "?a \<noteq> ?b"
    using neq lt nth_mem [OF lt] by (auto simp: case_prod_beta)
  have keys: "map fst (dict_pairs s) = take ?n ap"
    and rows: "map (\<lambda>kr. (id_1 (snd kr), id_2 (snd kr))) (dict_pairs s) = take ?n ap"
    and occ: "\<And>k. ps_occurrence s k = occ0 k + length (queue_upto ap k ?n)"
    and smp: "\<And>k. ps_sampled s k = (if queue_upto ap k ?n = [] then None else Some (queue_upto ap k ?n))"
    using inv by (simp_all add: ps_inv_def)
  have "ap ! ?n \<notin> set (take ?n ap)"
  proof
    assume "ap ! ?n \<in> set (take ?n ap)"
    then obtain j where j: "j < ?n" "take ?n ap ! j = ap ! ?n"
      using lt by (auto simp: in_set_conv_nth)
    then have "ap ! j = ap ! ?n" by simp
    then show False using dist j(1) lt by (simp add: nth_eq_iff_index_eq)
  qed
  then have fresh: "ap ! ?n \<notin> fst ` set (dict_pairs s)"
    using keys by (metis set_map)
  have upd: "AList.update (ap ! ?n) row (dict_pairs s) = dict_pairs s @ [(ap ! ?n, row)]"
    by (rule alist_update_fresh [OF fresh])
  have take: "take (Suc ?n) ap = take ?n ap @ [ap ! ?n]"
    by (rule take_Suc_conv_app_nth [OF lt])
  show ?thesis
    unfolding ps_inv_def
  proof (intro conjI allI)
    show "i_pair (s'\<lparr>i_pair := Suc ?n\<rparr>) \<le> length ap" using lt by simp
    show "map fst (dict_pairs (s'\<lparr>i_pair := Suc ?n\<rparr>)) = take (i_pair (s'\<lparr>i_pair := Suc ?n\<rparr>)) ap"
      by (simp add: s' upd take keys)
    show "map (\<lambda>kr. (id_1 (snd kr), id_2 (snd kr))) (dict_pairs (s'\<lparr>i_pair := Suc ?n\<rparr>))
            = take (i_pair (s'\<lparr>i_pair := Suc ?n\<rparr>)) ap"
      by (simp add: s' upd take rows row)
    show "ps_occurrence (s'\<lparr>i_pair := Suc ?n\<rparr>) k
            = occ0 k + length (queue_upto ap k (i_pair (s'\<lparr>i_pair := Suc ?n\<rparr>)))" for k
      using ab by (auto simp: s' Let_def occ queue_upto_Suc)
    show "ps_sampled (s'\<lparr>i_pair := Suc ?n\<rparr>) k
            = (if queue_upto ap k (i_pair (s'\<lparr>i_pair := Suc ?n\<rparr>)) = [] then None
               else Some (queue_upto ap k (i_pair (s'\<lparr>i_pair := Suc ?n\<rparr>))))" for k
      using ab by (auto simp: s' append_sampled_def smp queue_upto_Suc)
  qed
qed


lemma ps_inv_i_batch: "ps_inv ap occ0 (s\<lparr>i_batch := b\<rparr>) = ps_inv ap occ0 s"
  by (simp add: ps_inv_def)

lemma sample_batch_inv:
  assumes "distinct ap" and "\<forall>(a, b)\<in>set ap. a \<noteq> b"
  shows "sample_batch df st bmin ap bs s = Inr s' \<Longrightarrow> ps_inv ap occ0 s \<Longrightarrow> ps_inv ap occ0 s'"
  using assms
proof (induction df st bmin ap bs s rule: sample_batch.induct)
  case (1 df st bmin ap bs s)
  have unfolded: "(if bs < bmin then
        (if length ap \<le> i_pair s then Inl IndexError
         else
           (case sample_pair df st ap s of
              Inl e \<Rightarrow> Inl e
            | Inr (n_AA, s1) \<Rightarrow>
                sample_batch df st bmin ap (bs + 2 * n_AA) (s1\<lparr>i_pair := Suc (i_pair s)\<rparr>)))
      else Inr s) = Inr s'"
    using "1.prems"(1) by (subst (asm) sample_batch.simps)
  show ?case
  proof (cases "bs < bmin")
    case False
    then show ?thesis using unfolded "1.prems"(2) by simp
  next
    case True
    then have lt: "i_pair s < length ap"
      using unfolded by (simp split: if_splits)
    obtain n_AA s1 where sp: "sample_pair df st ap s = Inr (n_AA, s1)"
      and rest: "sample_batch df st bmin ap (bs + 2 * n_AA) (s1\<lparr>i_pair := Suc (i_pair s)\<rparr>) = Inr s'"
      using unfolded True lt
      by (cases "sample_pair df st ap s") auto
    have inv1: "ps_inv ap occ0 (s1\<lparr>i_pair := Suc (i_pair s)\<rparr>)"
      by (rule ps_inv_step [OF "1.prems"(2) lt "1.prems"(3,4) sp])
    have nle: "\<not> length ap \<le> i_pair s" using lt by simp
    show ?thesis
      by (rule "1.IH" [OF True nle sp refl rest inv1 "1.prems"(3,4)])
  qed
qed


lemma sample_batches_inv:
  assumes run: "sample_batches df st bmin nmax cov ap s = Some r"
  shows "distinct ap \<longrightarrow> (\<forall>(a, b)\<in>set ap. a \<noteq> b) \<longrightarrow> ps_inv ap occ0 s \<longrightarrow>
           (case r of Inl e \<Rightarrow> True | Inr s' \<Rightarrow> ps_inv ap occ0 s')"
proof (rule sample_batches.raw_induct
    [where P = "\<lambda>df st bmin nmax cov ap s r.
       distinct ap \<longrightarrow> (\<forall>(a, b)\<in>set ap. a \<noteq> b) \<longrightarrow> ps_inv ap occ0 s \<longrightarrow>
           (case r of Inl e \<Rightarrow> True | Inr s' \<Rightarrow> ps_inv ap occ0 s')", OF _ run])
  fix rec_call :: "protein list \<Rightarrow> settings \<Rightarrow> int \<Rightarrow> int option \<Rightarrow> rat option \<Rightarrow> (int \<times> int) list \<Rightarrow> ps_state \<Rightarrow> (py_error + ps_state) option"
    and df st bmin nmax cov ap s r
  assume IH: "\<And>df st bmin nmax cov ap s r. rec_call df st bmin nmax cov ap s = Some r \<Longrightarrow>
      distinct ap \<longrightarrow> (\<forall>(a, b)\<in>set ap. a \<noteq> b) \<longrightarrow> ps_inv ap occ0 s \<longrightarrow>
           (case r of Inl e \<Rightarrow> True | Inr s' \<Rightarrow> ps_inv ap occ0 s')"
    and body: "(if (case nmax of None \<Rightarrow> True | Some n \<Rightarrow> int (i_batch s) \<le> n)
         \<and> (case cov of None \<Rightarrow> True | Some c \<Rightarrow> 0 < c)
      then
        (case sample_batch df st bmin ap 0 s of
           Inl e \<Rightarrow> Some (Inl e)
         | Inr s' \<Rightarrow> rec_call df st bmin nmax cov ap (s'\<lparr>i_batch := Suc (i_batch s')\<rparr>))
      else Some (Inr s)) = Some r"
  show "distinct ap \<longrightarrow> (\<forall>(a, b)\<in>set ap. a \<noteq> b) \<longrightarrow> ps_inv ap occ0 s \<longrightarrow>
           (case r of Inl e \<Rightarrow> True | Inr s' \<Rightarrow> ps_inv ap occ0 s')"
  proof (intro impI)
    assume d: "distinct ap" and n: "\<forall>(a, b)\<in>set ap. a \<noteq> b" and inv: "ps_inv ap occ0 s"
    show "case r of Inl e \<Rightarrow> True | Inr s' \<Rightarrow> ps_inv ap occ0 s'"
    proof (cases "(case nmax of None \<Rightarrow> True | Some n \<Rightarrow> int (i_batch s) \<le> n)
         \<and> (case cov of None \<Rightarrow> True | Some c \<Rightarrow> 0 < c)")
      case False
      then have "r = Inr s" using body by auto
      then show ?thesis using inv by simp
    next
      case True
      show ?thesis
      proof (cases "sample_batch df st bmin ap 0 s")
        case (Inl e)
        then have "r = Inl e" using body True by simp
        then show ?thesis by simp
      next
        case (Inr s1)
        then have call: "rec_call df st bmin nmax cov ap (s1\<lparr>i_batch := Suc (i_batch s1)\<rparr>) = Some r"
          using body True by simp
        have "ps_inv ap occ0 s1"
          by (rule sample_batch_inv [OF d n Inr inv])
        then have "ps_inv ap occ0 (s1\<lparr>i_batch := Suc (i_batch s1)\<rparr>)"
          by (simp add: ps_inv_i_batch)
        with IH [OF call] d n show ?thesis by blast
      qed
    qed
  qed
qed

lemma filter_by_index:
  "filter P xs = map ((!) xs) (filter (\<lambda>j. P (xs ! j)) [0..<length xs])"
proof -
  have "filter P xs = filter P (map ((!) xs) [0..<length xs])"
    by (simp add: map_nth)
  also have "\<dots> = map ((!) xs) (filter (\<lambda>j. P (xs ! j)) [0..<length xs])"
    by (simp add: filter_map o_def)
  finally show ?thesis .
qed

lemma participation_pair_indices:
  "participation k rows = length (pair_indices k rows)"
  unfolding participation_def pair_indices_def
  by (subst filter_by_index) simp

lemma pair_indices_queue:
  assumes "map (\<lambda>kr. (id_1 (snd kr), id_2 (snd kr))) dp = take n ap" and "n \<le> length ap"
  shows "pair_indices k (map snd dp) = queue_upto ap k n"
proof -
  have len: "length dp = n"
    using assms by (metis length_map length_take min.absorb2)
  have "(id_1 (map snd dp ! j), id_2 (map snd dp ! j)) = ap ! j" if "j < n" for j
  proof -
    have "map (\<lambda>kr. (id_1 (snd kr), id_2 (snd kr))) dp ! j = take n ap ! j"
      by (simp only: assms(1))
    then show ?thesis using that len by simp
  qed
  then have "id_1 (map snd dp ! j) = fst (ap ! j) \<and> id_2 (map snd dp ! j) = snd (ap ! j)" if "j < n" for j
    using that by (metis fst_conv snd_conv)
  then show ?thesis
    unfolding pair_indices_def queue_upto_def
    by (auto simp: len intro!: filter_cong)
qed

text \<open>
  Claim C9, as amended. Let a run of pair_sampler return, on a list of distinct pairs of
  two different records each (as the combinations within the groups are). Then for every
  record id the occurrence counter has grown by the number of sampled pairs (rows of
  \<open>df_pairs\<close>) in which the id takes part; on a dataset whose counters are all zero, as
  after construction, the counter equals that number. The queue \<open>dict_sampled[id]\<close> lists
  the indices of these rows, so its length is that number, and an id in no sampled pair has
  no queue entry.
\<close>

theorem pair_sampler_occurrence:
  assumes "pair_sampler ds batch_size_min n_batches_max coverage_rate_min all_pairs = Some (Inr (batches, ds'))"
    and "distinct all_pairs" and "\<forall>(a, b)\<in>set all_pairs. a \<noteq> b"
  shows "occurrence ds' k = occurrence ds k + participation k (df_pairs ds')
     \<and> (occurrence ds = (\<lambda>i. 0) \<longrightarrow> occurrence ds' k = participation k (df_pairs ds'))
     \<and> dict_sampled ds' k =
         (if participation k (df_pairs ds') = 0 then None else Some (pair_indices k (df_pairs ds')))
     \<and> length (pair_indices k (df_pairs ds')) = participation k (df_pairs ds')"
proof -
  let ?s0 = "\<lparr>i_batch = 0, i_pair = 0, dict_pairs = [], ps_sampled = Map.empty,
                 ps_occurrence = occurrence ds\<rparr>"
  from assms(1) obtain s where
    run: "sample_batches (df_mutations ds) (ds_settings ds) batch_size_min n_batches_max
            coverage_rate_min all_pairs ?s0 = Some (Inr s)"
    and ds': "ds' = ds\<lparr>occurrence := ps_occurrence s, dict_sampled := ps_sampled s,
                        df_pairs := map snd (dict_pairs s)\<rparr>"
    by (auto simp: pair_sampler_def split: if_splits option.splits sum.splits)
  have inv0: "ps_inv all_pairs (occurrence ds) ?s0"
    by (simp add: ps_inv_def queue_upto_def)
  have inv: "ps_inv all_pairs (occurrence ds) s"
    using sample_batches_inv [OF run, of "occurrence ds"] assms(2,3) inv0 by simp
  then have q: "pair_indices k (df_pairs ds') = queue_upto all_pairs k (i_pair s)"
    using pair_indices_queue [of "dict_pairs s" "i_pair s" all_pairs k]
    by (simp add: ds' ps_inv_def)
  have occ: "occurrence ds' k = occurrence ds k + length (queue_upto all_pairs k (i_pair s))"
    and smp: "dict_sampled ds' k = (if queue_upto all_pairs k (i_pair s) = [] then None
                                    else Some (queue_upto all_pairs k (i_pair s)))"
    using inv by (simp_all add: ds' ps_inv_def)
  show ?thesis
    using occ smp by (simp add: participation_pair_indices q)
qed

text \<open>
  The theorem applied to the first run on \<open>pair_table\<close> with \<open>n_batches_max = 0\<close>: one
  pair is sampled, record 0 takes part in it, its counter is 1 and its queue is \<open>[0]\<close>.
\<close>

theorem pair_sampler_occurrence_witness:
  "distinct [(0 :: int, 1 :: int)]
   \<and> (\<exists>batches ds'.
        pair_sampler (DatasetPairs_init pair_table None no_truncation) 1 (Some 0) None [(0, 1)]
          = Some (Inr (batches, ds'))
        \<and> participation 0 (df_pairs ds') = 1 \<and> occurrence ds' 0 = 1 \<and> dict_sampled ds' 0 = Some [0])"
proof -
  let ?ds = "DatasetPairs_init pair_table None no_truncation"
  have "case pair_sampler ?ds 1 (Some 0) None [(0, 1)] of
          Some (Inr (batches, ds')) \<Rightarrow> participation 0 (df_pairs ds') = 1 \<and> pair_indices 0 (df_pairs ds') = [0]
        | _ \<Rightarrow> False"
    by code_simp
  then obtain batches ds' where
    run: "pair_sampler ?ds 1 (Some 0) None [(0, 1)] = Some (Inr (batches, ds'))"
    and p: "participation 0 (df_pairs ds') = 1" "pair_indices 0 (df_pairs ds') = [0]"
    by (auto split: option.splits sum.splits)
  have "occurrence ds' 0 = 1 \<and> dict_sampled ds' 0 = Some [0]"
    using pair_sampler_occurrence [OF run, of 0] p
    by (simp add: DatasetPairs_init_def)
  then show ?thesis using run p by auto
qed

text \<open>
  Claim C9 as stated fails for a second run on the same object: pair_sampler resets
  \<open>dict_sampled\<close> but not the column "occurrence", so after two runs that sample one pair
  each the counter of record 0 is 2, while the record takes part in one sampled pair and
  its queue has one entry.
\<close>

theorem pair_sampler_second_run_counterexample:
  "(case pair_sampler (DatasetPairs_init pair_table None no_truncation) 1 (Some 0) None [(0, 1)] of
      Some (Inr (batches1, ds1)) \<Rightarrow>
        (case pair_sampler ds1 1 (Some 0) None [(0, 1)] of
           Some (Inr (batches2, ds2)) \<Rightarrow>
             occurrence ds2 0 = 2 \<and> participation 0 (df_pairs ds2) = 1
             \<and> dict_sampled ds2 0 = Some [0]
         | _ \<Rightarrow> False)
    | _ \<Rightarrow> False)"
  by code_simp


end

